theory Spec2Isabelle
  imports Complex_Main
begin

section \<open>Numbers\<close>

text \<open>
  The notebook computes with double-precision floats (Python floats and numpy float64
  scalars).  A finite float is idealised as a real number: rounding, overflow and the
  sign of zero are left out (the rounding of the grid line, on which the number of
  grid points depends, is modelled in its own section below).  The three non-finite floats are kept as values of their
  own, because numpy's scalar division does not raise on a zero divisor: it returns
  \<open>inf\<close>, \<open>-inf\<close> or \<open>nan\<close> (with a warning only), and the program goes on
  computing with that value.
\<close>

datatype fl = Fin real | PInf | MInf | NaN

fun nonfinite :: "fl \<Rightarrow> bool" where
  "nonfinite (Fin a) = False"
| "nonfinite PInf = True"
| "nonfinite MInf = True"
| "nonfinite NaN = True"

instantiation fl :: "{plus, uminus, minus, times, inverse, abs, ord}"
begin

fun uminus_fl :: "fl \<Rightarrow> fl" where
  "uminus_fl (Fin a) = Fin (- a)"
| "uminus_fl PInf = MInf"
| "uminus_fl MInf = PInf"
| "uminus_fl NaN = NaN"

fun plus_fl :: "fl \<Rightarrow> fl \<Rightarrow> fl" where
  "plus_fl (Fin a) (Fin b) = Fin (a + b)"
| "plus_fl NaN y = NaN"
| "plus_fl x NaN = NaN"
| "plus_fl PInf MInf = NaN"
| "plus_fl MInf PInf = NaN"
| "plus_fl PInf y = PInf"
| "plus_fl x PInf = PInf"
| "plus_fl MInf y = MInf"
| "plus_fl x MInf = MInf"

definition minus_fl :: "fl \<Rightarrow> fl \<Rightarrow> fl" where
  "minus_fl x y = x + (- y)"

fun times_fl :: "fl \<Rightarrow> fl \<Rightarrow> fl" where
  "times_fl (Fin a) (Fin b) = Fin (a * b)"
| "times_fl NaN y = NaN"
| "times_fl x NaN = NaN"
| "times_fl PInf PInf = PInf"
| "times_fl PInf MInf = MInf"
| "times_fl MInf PInf = MInf"
| "times_fl MInf MInf = PInf"
| "times_fl PInf (Fin b) = (if b = 0 then NaN else if 0 < b then PInf else MInf)"
| "times_fl MInf (Fin b) = (if b = 0 then NaN else if 0 < b then MInf else PInf)"
| "times_fl (Fin a) PInf = (if a = 0 then NaN else if 0 < a then PInf else MInf)"
| "times_fl (Fin a) MInf = (if a = 0 then NaN else if 0 < a then MInf else PInf)"

text \<open>
  Division by a finite zero: the only divisor of the program that can be zero is a
  difference \<open>x - x\<close> of two equal finite floats, which is \<open>+0.0\<close>, so the
  quotient takes the sign of the dividend, and \<open>0 / 0\<close> is \<open>nan\<close>.
\<close>

fun divide_fl :: "fl \<Rightarrow> fl \<Rightarrow> fl" where
  "divide_fl (Fin a) (Fin b) =
     (if b = 0 then (if a = 0 then NaN else if 0 < a then PInf else MInf)
      else Fin (a / b))"
| "divide_fl NaN y = NaN"
| "divide_fl x NaN = NaN"
| "divide_fl (Fin a) PInf = Fin 0"
| "divide_fl (Fin a) MInf = Fin 0"
| "divide_fl PInf (Fin b) = (if 0 \<le> b then PInf else MInf)"
| "divide_fl MInf (Fin b) = (if 0 \<le> b then MInf else PInf)"
| "divide_fl PInf PInf = NaN"
| "divide_fl PInf MInf = NaN"
| "divide_fl MInf PInf = NaN"
| "divide_fl MInf MInf = NaN"

definition inverse_fl :: "fl \<Rightarrow> fl" where
  "inverse_fl x = divide (Fin 1) x"

fun abs_fl :: "fl \<Rightarrow> fl" where
  "abs_fl (Fin a) = Fin \<bar>a\<bar>"
| "abs_fl PInf = PInf"
| "abs_fl MInf = PInf"
| "abs_fl NaN = NaN"

text \<open>Comparisons: every comparison with \<open>nan\<close> is false.\<close>

fun less_fl :: "fl \<Rightarrow> fl \<Rightarrow> bool" where
  "less_fl (Fin a) (Fin b) = (a < b)"
| "less_fl NaN y = False"
| "less_fl x NaN = False"
| "less_fl x MInf = False"
| "less_fl PInf y = False"
| "less_fl MInf y = True"
| "less_fl x PInf = True"

fun less_eq_fl :: "fl \<Rightarrow> fl \<Rightarrow> bool" where
  "less_eq_fl (Fin a) (Fin b) = (a \<le> b)"
| "less_eq_fl NaN y = False"
| "less_eq_fl x NaN = False"
| "less_eq_fl MInf y = True"
| "less_eq_fl x PInf = True"
| "less_eq_fl x MInf = False"
| "less_eq_fl PInf y = False"

instance ..

end

section \<open>The integrator\<close>

datatype error = ArangeError | RuntimeError string

text \<open>
  \<open>np.arange(start, stop, step)\<close> is numpy's, not the notebook's: it has
  \<open>\<lceil>(stop - start) / step\<rceil>\<close> elements (none when that is not positive), the
  element of index \<open>i\<close> is \<open>start + i * step\<close>, and a zero step raises (the
  quotient is a division by zero).  Here in exact arithmetic, which fixes the shape of
  the trajectory; \<open>arange64\<close> below is the same function with its float64 rounding.
\<close>

definition arange :: "real \<Rightarrow> real \<Rightarrow> real \<Rightarrow> error + real list" where
  "arange start stop step =
     (if step = 0 then Inl ArangeError
      else Inr (map (\<lambda>i. start + real i * step) [0..<nat \<lceil>(stop - start) / step\<rceil>]))"

text \<open>
  The body of the integration loop: the four stage arrays \<open>k1 .. k4\<close> (\<open>k1_0\<close>
  is \<open>k1[0]\<close>, and so on) and the three appends.  \<open>f[-1]\<close> is \<open>last f\<close>: the three
  lists start with one element and only grow.
\<close>

fun rk4_body :: "real \<Rightarrow> fl list \<times> fl list \<times> fl list \<Rightarrow> fl list \<times> fl list \<times> fl list" where
  "rk4_body h (f, fp, fpp) =
     (let k1_0 = Fin h * last fp;
          k1_1 = Fin h * last fpp;
          k1_2 = Fin h * (Fin (- 0.5) * last f * last fpp);
          k2_0 = Fin h * (last fp + Fin 0.5 * k1_1);
          k2_1 = Fin h * (last fpp + Fin 0.5 * k1_2);
          k2_2 = Fin h * (Fin (- 0.5) * (last f + Fin 0.5 * k1_0) * (last fpp + Fin 0.5 * k1_2));
          k3_0 = Fin h * (last fp + Fin 0.5 * k2_1);
          k3_1 = Fin h * (last fpp + Fin 0.5 * k2_2);
          k3_2 = Fin h * (Fin (- 0.5) * (last f + Fin 0.5 * k2_0) * (last fpp + Fin 0.5 * k2_2));
          k4_0 = Fin h * (last fp + k3_1);
          k4_1 = Fin h * (last fpp + k3_2);
          k4_2 = Fin h * (Fin (- 0.5) * (last f + k3_0) * (last fpp + k3_2))
      in (f @ [last f + (k1_0 + Fin 2 * k2_0 + Fin 2 * k3_0 + k4_0) / Fin 6],
          fp @ [last fp + (k1_1 + Fin 2 * k2_1 + Fin 2 * k3_1 + k4_1) / Fin 6],
          fpp @ [last fpp + (k1_2 + Fin 2 * k2_2 + Fin 2 * k3_2 + k4_2) / Fin 6]))"

text \<open>\<open>for i in range(1, len(eta))\<close>: the body runs \<open>len(eta) - 1\<close> times, and not at all
  when the grid has no or one point.\<close>

primrec rk4_loop :: "nat \<Rightarrow> real \<Rightarrow> fl list \<times> fl list \<times> fl list \<Rightarrow> fl list \<times> fl list \<times> fl list" where
  "rk4_loop 0 h st = st"
| "rk4_loop (Suc n) h st = rk4_loop n h (rk4_body h st)"

definition runge_kutta_4th_order ::
  "fl \<Rightarrow> real \<Rightarrow> real \<Rightarrow> error + (fl list \<times> fl list \<times> fl list \<times> real list)" where
  "runge_kutta_4th_order f1_0 eta_max h =
     (case arange 0 (eta_max + h) h of
        Inl e \<Rightarrow> Inl e
      | Inr eta \<Rightarrow>
          (case rk4_loop (length eta - 1) h ([Fin 0], [Fin 0], [f1_0]) of
             (f, fp, fpp) \<Rightarrow> Inr (f, fp, fpp, eta)))"

section \<open>The shooting solver\<close>

text \<open>
  The rolling state of the secant loop is \<open>(f1_0_old, f2_old, f1_0_new)\<close>.  The update
  at the end of a loop body that has not returned: \<open>f2_new\<close> is the last \<open>f'\<close> of the
  trajectory just computed.  The division is numpy's, so a zero divisor gives a
  non-finite quotient and raises nothing.
\<close>

fun secant_update :: "fl \<times> fl \<times> fl \<Rightarrow> fl \<Rightarrow> fl \<times> fl \<times> fl" where
  "secant_update (f1_0_old, f2_old, f1_0_new) f2_new =
     (let f1_0_temp = f1_0_new;
          f1_0_new' = f1_0_new - (f2_new - Fin 1) * (f1_0_new - f1_0_old) / (f2_new - f2_old)
      in (f1_0_temp, f2_new, f1_0_new'))"

text \<open>\<open>for i in range(100)\<close>: the first argument counts the iterations left, the second
  is the loop variable \<open>i\<close>.\<close>

primrec secant_loop ::
  "nat \<Rightarrow> nat \<Rightarrow> fl \<times> fl \<times> fl \<Rightarrow> real \<Rightarrow> real \<Rightarrow> real \<Rightarrow>
     error + (fl list \<times> fl list \<times> fl list \<times> fl \<times> nat)" where
  "secant_loop 0 i st tol eta_max h =
     Inl (RuntimeError ''Secant method did not converge after 100 iterations'')"
| "secant_loop (Suc n) i st tol eta_max h =
     (case st of (f1_0_old, f2_old, f1_0_new) \<Rightarrow>
        (case runge_kutta_4th_order f1_0_new eta_max h of
           Inl e \<Rightarrow> Inl e
         | Inr (f, fp, fpp, eta) \<Rightarrow>
             (let f2_new = last fp in
              if \<bar>f2_new - Fin 1\<bar> < Fin tol then Inr (f, fp, fpp, f2_new, i)
              else secant_loop n (Suc i) (secant_update (f1_0_old, f2_old, f1_0_new) f2_new)
                     tol eta_max h)))"

definition secant_method ::
  "fl \<times> fl \<Rightarrow> real \<Rightarrow> real \<Rightarrow> real \<Rightarrow> error + (fl list \<times> fl list \<times> fl list \<times> fl \<times> nat)" where
  "secant_method f1_0_guesses tol eta_max h =
     (case f1_0_guesses of (f1_0_old, f1_0_new) \<Rightarrow>
        (case runge_kutta_4th_order f1_0_old eta_max h of
           Inl e \<Rightarrow> Inl e
         | Inr (f, fp, fpp, eta) \<Rightarrow>
             secant_loop 100 0 (f1_0_old, last fp, f1_0_new) tol eta_max h))"

section \<open>The grid of line 47 in float64\<close>

text \<open>
  The number of grid points and their spacing depend on the rounding of line 47,
  \<open>eta = np.arange(0, eta_max+h, h)\<close>, so this line is modelled once more with it.
  \<open>round64\<close> rounds a real to the nearest float64, ties to even: the significand is
  scaled to an integer of 53 bits (\<open>ilog2\<close> finds the binary exponent by halving or
  doubling) and rounded by \<open>round_even\<close>.  The exponent range is not bounded: overflow
  and underflow are left out.  A real \<open>x\<close> is a float64 value when \<open>round64 x = x\<close>.
  \<open>eta_float64\<close> is the array that line 47 assigns to \<open>eta\<close> and that line 61 returns
  unchanged as the fourth result.
\<close>

function log2_down :: "real \<Rightarrow> int" where
  "log2_down a = (if 2 \<le> a then log2_down (a / 2) + 1 else 0)"
  by pat_completeness auto
termination
proof (relation "measure (\<lambda>a. nat \<lceil>a\<rceil>)")
  show "wf (measure (\<lambda>a. nat \<lceil>a\<rceil>))" by simp
next
  fix a :: real assume "2 \<le> a"
  then have "\<lceil>a / 2\<rceil> < \<lceil>a\<rceil>" by linarith
  moreover from \<open>2 \<le> a\<close> have "0 < \<lceil>a\<rceil>" by linarith
  ultimately show "(a / 2, a) \<in> measure (\<lambda>a. nat \<lceil>a\<rceil>)" by simp
qed

function log2_up :: "real \<Rightarrow> int" where
  "log2_up a = (if 0 < a \<and> a < 1 then log2_up (2 * a) - 1 else 0)"
  by pat_completeness auto
termination
proof (relation "measure (\<lambda>a. nat \<lceil>1 / a\<rceil>)")
  show "wf (measure (\<lambda>a. nat \<lceil>1 / a\<rceil>))" by simp
next
  fix a :: real assume a: "0 < a \<and> a < 1"
  define y where "y = 1 / a"
  from a have y: "1 < y" by (simp add: y_def)
  then have "2 \<le> \<lceil>y\<rceil>" by linarith
  then have "2 \<le> real_of_int \<lceil>y\<rceil>" by linarith
  with le_of_int_ceiling [of y] have "y / 2 \<le> real_of_int \<lceil>y\<rceil> - 1" by linarith
  then have "y / 2 \<le> of_int (\<lceil>y\<rceil> - 1)" by simp
  then have "\<lceil>y / 2\<rceil> \<le> \<lceil>y\<rceil> - 1" by (simp only: ceiling_le_iff)
  then have "\<lceil>y / 2\<rceil> < \<lceil>y\<rceil>" by simp
  moreover have "1 / (2 * a) = y / 2" by (simp add: y_def)
  moreover from y have "0 < \<lceil>y\<rceil>" by linarith
  ultimately have "nat \<lceil>1 / (2 * a)\<rceil> < nat \<lceil>1 / a\<rceil>"
    by (simp only: y_def zless_nat_conj)
  then show "(2 * a, a) \<in> measure (\<lambda>a. nat \<lceil>1 / a\<rceil>)" by (simp only: in_measure)
qed

definition ilog2 :: "real \<Rightarrow> int" where
  "ilog2 a = (if a < 1 then log2_up a else log2_down a)"

definition round_even :: "real \<Rightarrow> int" where
  "round_even y =
     (let n = \<lfloor>y\<rfloor>; d = y - of_int n
      in if d < 1 / 2 then n else if 1 / 2 < d then n + 1 else if even n then n else n + 1)"

definition round64 :: "real \<Rightarrow> real" where
  "round64 x =
     (if x = 0 then 0
      else let e = ilog2 \<bar>x\<bar> - 52
           in of_int (round_even (x / 2 powi e)) * 2 powi e)"

text \<open>
  \<open>np.arange\<close> on floats: the length is the ceiling of the float quotient
  \<open>(stop - start) / step\<close>; the first two elements are \<open>start\<close> and the float sum
  \<open>start + step\<close>, and the element of index \<open>i \<ge> 2\<close> is \<open>start + i * delta\<close> in float
  arithmetic, with \<open>delta\<close> the float difference of the first two.  Line 47 passes the
  float sum \<open>eta_max + h\<close> as \<open>stop\<close>.
\<close>

definition arange64 :: "real \<Rightarrow> real \<Rightarrow> real \<Rightarrow> error + real list" where
  "arange64 start stop step =
     (if step = 0 then Inl ArangeError
      else let len = nat \<lceil>round64 (round64 (stop - start) / step)\<rceil>;
               next = round64 (start + step);
               delta = round64 (next - start)
           in Inr (map (\<lambda>i. if i = 0 then start else if i = 1 then next
                             else round64 (start + round64 (real i * delta)))
                     [0..<len]))"

definition eta_float64 :: "real \<Rightarrow> real \<Rightarrow> error + real list" where
  "eta_float64 eta_max h = arange64 0 (round64 (eta_max + h)) h"

text \<open>The length of that grid.\<close>

definition grid_len64 :: "real \<Rightarrow> real \<Rightarrow> nat" where
  "grid_len64 eta_max h = nat \<lceil>round64 (round64 (eta_max + h) / h)\<rceil>"

section \<open>The specification's formulas\<close>

text \<open>
  The specification states one integrator step on state vectors \<open>s = (f, f', f'')\<close>,
  with the derivative function \<open>D(s) = [s.f', s.f'', -0.5 * s.f * s.f'']\<close>:
  \<open>k1 = h * D(s)\<close>, \<open>k2 = h * D(s + 0.5 * k1)\<close>, \<open>k3 = h * D(s + 0.5 * k2)\<close>,
  \<open>k4 = h * D(s + k3)\<close> and \<open>s_next = s + (k1 + 2 * k2 + 2 * k3 + k4) / 6\<close>.
  These definitions follow the specification's words; the code is \<open>rk4_body\<close>.
\<close>

type_synonym state = "fl \<times> fl \<times> fl"

definition spec_D :: "state \<Rightarrow> state" where
  "spec_D s = (case s of (f, fp, fpp) \<Rightarrow> (fp, fpp, Fin (- 0.5) * f * fpp))"

definition vadd :: "state \<Rightarrow> state \<Rightarrow> state" where
  "vadd s t = (case s of (a, b, c) \<Rightarrow> (case t of (a', b', c') \<Rightarrow> (a + a', b + b', c + c')))"

definition vscale :: "fl \<Rightarrow> state \<Rightarrow> state" where
  "vscale x s = (case s of (a, b, c) \<Rightarrow> (x * a, x * b, x * c))"

definition vdiv :: "state \<Rightarrow> fl \<Rightarrow> state" where
  "vdiv s x = (case s of (a, b, c) \<Rightarrow> (a / x, b / x, c / x))"

definition spec_rk4_step :: "real \<Rightarrow> state \<Rightarrow> state" where
  "spec_rk4_step h s =
     (let k1 = vscale (Fin h) (spec_D s);
          k2 = vscale (Fin h) (spec_D (vadd s (vscale (Fin 0.5) k1)));
          k3 = vscale (Fin h) (spec_D (vadd s (vscale (Fin 0.5) k2)));
          k4 = vscale (Fin h) (spec_D (vadd s k3))
      in vadd s (vdiv (vadd (vadd (vadd k1 (vscale (Fin 2) k2)) (vscale (Fin 2) k3)) k4) (Fin 6)))"

section \<open>Notions used to state the properties\<close>

text \<open>The state vector at grid point \<open>i\<close> of three parallel lists.\<close>

definition state_at :: "fl list \<times> fl list \<times> fl list \<Rightarrow> nat \<Rightarrow> state" where
  "state_at tr i = (case tr of (f, fp, fpp) \<Rightarrow> (f ! i, fp ! i, fpp ! i))"

text \<open>Consecutive entries of the three lists are linked by one step of the specification.\<close>

definition steps_ok :: "real \<Rightarrow> fl list \<times> fl list \<times> fl list \<Rightarrow> bool" where
  "steps_ok h tr =
     (case tr of (f, fp, fpp) \<Rightarrow>
        f \<noteq> [] \<and> length fp = length f \<and> length fpp = length f \<and>
        (\<forall>i. Suc i < length f \<longrightarrow> state_at tr (Suc i) = spec_rk4_step h (state_at tr i)))"

text \<open>
  What the integrator computes when \<open>arange\<close> does not raise (\<open>h \<noteq> 0\<close>, lemma
  \<open>rk_returns\<close>): the grid, the three lists, and the last \<open>f'\<close>, which is the
  \<open>f'(eta_max)\<close> of the shooting solver.
\<close>

definition eta_grid :: "real \<Rightarrow> real \<Rightarrow> real list" where
  "eta_grid eta_max h = map (\<lambda>i. 0 + real i * h) [0..<nat \<lceil>(eta_max + h - 0) / h\<rceil>]"

definition traj :: "fl \<Rightarrow> real \<Rightarrow> real \<Rightarrow> fl list \<times> fl list \<times> fl list" where
  "traj f1_0 eta_max h = rk4_loop (length (eta_grid eta_max h) - 1) h ([Fin 0], [Fin 0], [f1_0])"

definition fp_end :: "fl \<Rightarrow> real \<Rightarrow> real \<Rightarrow> fl" where
  "fp_end f1_0 eta_max h = last (fst (snd (traj f1_0 eta_max h)))"

text \<open>
  The convergence test of the loop, one whole loop body that does not return
  (\<open>secant_step\<close>), the rolling state at the start of iteration \<open>n\<close> when no earlier
  iteration has returned (\<open>secant_state\<close>, from the two seed guesses), its trial
  parameter \<open>f1_0_new\<close> (\<open>guess\<close>), and the residual \<open>R(x) = f'(eta_max; x) - 1\<close> of
  the specification.
\<close>

definition converged :: "real \<Rightarrow> fl \<Rightarrow> bool" where
  "converged tol f2 = (\<bar>f2 - Fin 1\<bar> < Fin tol)"

definition secant_step :: "real \<Rightarrow> real \<Rightarrow> fl \<times> fl \<times> fl \<Rightarrow> fl \<times> fl \<times> fl" where
  "secant_step eta_max h st = secant_update st (fp_end (snd (snd st)) eta_max h)"

definition secant_state :: "fl \<times> fl \<Rightarrow> real \<Rightarrow> real \<Rightarrow> nat \<Rightarrow> fl \<times> fl \<times> fl" where
  "secant_state g eta_max h n =
     (secant_step eta_max h ^^ n) (fst g, fp_end (fst g) eta_max h, snd g)"

definition guess :: "fl \<times> fl \<Rightarrow> real \<Rightarrow> real \<Rightarrow> nat \<Rightarrow> fl" where
  "guess g eta_max h n = snd (snd (secant_state g eta_max h n))"

definition residual :: "fl \<Rightarrow> real \<Rightarrow> real \<Rightarrow> fl" where
  "residual x eta_max h = fp_end x eta_max h - Fin 1"



section \<open>Lemmas on the integrator\<close>

lemma fl_nan_simps [simp]:
  "x + NaN = NaN" "x * NaN = NaN" "x / NaN = NaN" "x - NaN = NaN" "NaN - x = NaN"
  by (cases x; simp add: minus_fl_def)+

lemma rk4_body_step:
  "rk4_body h (f, fp, fpp) =
     (case spec_rk4_step h (last f, last fp, last fpp) of
        (a, b, c) \<Rightarrow> (f @ [a], fp @ [b], fpp @ [c]))"
  by (simp add: spec_rk4_step_def spec_D_def vadd_def vscale_def vdiv_def Let_def)

lemma rk_example:
  "runge_kutta_4th_order (Fin 1) 1 1 =
     Inr ([Fin 0, Fin (1 / 2)], [Fin 0, Fin (47 / 48)], [Fin 1, Fin (59 / 64)], [0, 1])"
  by (simp add: runge_kutta_4th_order_def arange_def Let_def minus_fl_def numeral_2_eq_2)

declare rk4_body.simps [simp del]

lemma rk4_body_length:
  "rk4_body h (f, fp, fpp) = (f', fp', fpp') \<Longrightarrow>
     length f' = Suc (length f) \<and> length fp' = Suc (length fp) \<and> length fpp' = Suc (length fpp)"
  by (auto simp: rk4_body_step split: prod.splits)

lemma rk4_loop_length:
  "rk4_loop n h (f, fp, fpp) = (f', fp', fpp') \<Longrightarrow>
     length f' = length f + n \<and> length fp' = length fp + n \<and> length fpp' = length fpp + n"
proof (induction n arbitrary: f fp fpp)
  case 0
  then show ?case by simp
next
  case (Suc n)
  obtain g gp gpp where b: "rk4_body h (f, fp, fpp) = (g, gp, gpp)"
    by (cases "rk4_body h (f, fp, fpp)") auto
  from Suc.prems b have "rk4_loop n h (g, gp, gpp) = (f', fp', fpp')" by simp
  from Suc.IH [OF this] rk4_body_length [OF b] show ?case by simp
qed

lemma rk4_loop_prefix:
  "rk4_loop n h (f, fp, fpp) = (f', fp', fpp') \<Longrightarrow>
     (\<exists>xs ys zs. f' = f @ xs \<and> fp' = fp @ ys \<and> fpp' = fpp @ zs)"
proof (induction n arbitrary: f fp fpp)
  case 0
  then show ?case by simp
next
  case (Suc n)
  obtain a b c where s: "spec_rk4_step h (last f, last fp, last fpp) = (a, b, c)"
    by (cases "spec_rk4_step h (last f, last fp, last fpp)") auto
  from Suc.prems s have "rk4_loop n h (f @ [a], fp @ [b], fpp @ [c]) = (f', fp', fpp')"
    by (simp add: rk4_body_step)
  from Suc.IH [OF this] show ?case by auto
qed

lemma steps_ok_body:
  assumes "steps_ok h (f, fp, fpp)"
  shows "steps_ok h (rk4_body h (f, fp, fpp))"
proof -
  obtain a b c where s: "spec_rk4_step h (last f, last fp, last fpp) = (a, b, c)"
    by (cases "spec_rk4_step h (last f, last fp, last fpp)") auto
  from assms have ne: "f \<noteq> []" "fp \<noteq> []" "fpp \<noteq> []"
    and len: "length fp = length f" "length fpp = length f"
    by (auto simp: steps_ok_def)
  have lst: "last f = f ! (length f - 1)" "last fp = fp ! (length f - 1)"
    "last fpp = fpp ! (length f - 1)"
    using ne len by (simp_all add: last_conv_nth)
  have "state_at (f @ [a], fp @ [b], fpp @ [c]) (Suc i) =
        spec_rk4_step h (state_at (f @ [a], fp @ [b], fpp @ [c]) i)"
    if "Suc i < Suc (length f)" for i
  proof (cases "Suc i < length f")
    case True
    with assms have "state_at (f, fp, fpp) (Suc i) = spec_rk4_step h (state_at (f, fp, fpp) i)"
      by (simp add: steps_ok_def)
    with True len show ?thesis by (simp add: state_at_def nth_append)
  next
    case False
    with that have i: "Suc i = length f" by simp
    then have "i = length f - 1" by simp
    with i len s lst show ?thesis by (simp add: state_at_def nth_append)
  qed
  with ne len s show ?thesis by (simp add: steps_ok_def rk4_body_step)
qed

lemma steps_ok_loop: "steps_ok h tr \<Longrightarrow> steps_ok h (rk4_loop n h tr)"
proof (induction n arbitrary: tr)
  case 0
  then show ?case by simp
next
  case (Suc n)
  obtain f fp fpp where "tr = (f, fp, fpp)" by (cases tr) auto
  with Suc show ?case by (simp add: steps_ok_body)
qed

lemma steps_ok_init: "steps_ok h ([Fin 0], [Fin 0], [f1_0])"
  by (simp add: steps_ok_def)

lemma arange_grid: "h \<noteq> 0 \<Longrightarrow> arange 0 (eta_max + h) h = Inr (eta_grid eta_max h)"
  by (simp add: arange_def eta_grid_def)

lemma rk_returns:
  "h \<noteq> 0 \<Longrightarrow> runge_kutta_4th_order f1_0 eta_max h =
     Inr (fst (traj f1_0 eta_max h), fst (snd (traj f1_0 eta_max h)),
          snd (snd (traj f1_0 eta_max h)), eta_grid eta_max h)"
  by (simp add: runge_kutta_4th_order_def arange_grid traj_def split: prod.splits)

lemma rk_raises: "runge_kutta_4th_order f1_0 eta_max 0 = Inl ArangeError"
  by (simp add: runge_kutta_4th_order_def arange_def)

lemma rk_Inr_iff:
  "runge_kutta_4th_order f1_0 eta_max h = Inr (f, fp, fpp, eta) \<longleftrightarrow>
     h \<noteq> 0 \<and> (f, fp, fpp) = traj f1_0 eta_max h \<and> eta = eta_grid eta_max h"
  by (cases "h = 0"; cases "traj f1_0 eta_max h") (auto simp: rk_returns rk_raises)

lemma traj_length:
  "traj f1_0 eta_max h = (f, fp, fpp) \<Longrightarrow>
     length f = Suc (length (eta_grid eta_max h) - 1) \<and> length fp = length f \<and> length fpp = length f"
  unfolding traj_def by (drule rk4_loop_length) simp

lemma traj_steps_ok: "steps_ok h (traj f1_0 eta_max h)"
  unfolding traj_def by (rule steps_ok_loop [OF steps_ok_init])

lemma traj_first:
  assumes "traj f1_0 eta_max h = (f, fp, fpp)"
  shows "f \<noteq> [] \<and> fp \<noteq> [] \<and> fpp \<noteq> [] \<and> f ! 0 = Fin 0 \<and> fp ! 0 = Fin 0 \<and> fpp ! 0 = f1_0"
proof -
  from assms obtain xs ys zs where "f = [Fin 0] @ xs" "fp = [Fin 0] @ ys" "fpp = [f1_0] @ zs"
    unfolding traj_def by (blast dest: rk4_loop_prefix)
  then show ?thesis by simp
qed

lemma eta_grid_length_pos:
  assumes "0 < h" "- h < eta_max"
  shows "int (length (eta_grid eta_max h)) = \<lceil>eta_max / h\<rceil> + 1"
proof -
  from assms have q: "(eta_max + h - 0) / h = eta_max / h + 1"
    by (simp add: field_simps)
  then have c: "\<lceil>(eta_max + h - 0) / h\<rceil> = \<lceil>eta_max / h\<rceil> + 1"
    by (simp only: ceiling_add_one)
  from assms have "- 1 < eta_max / h" by (simp add: field_simps)
  then have "0 \<le> \<lceil>eta_max / h\<rceil>" by linarith
  moreover have "length (eta_grid eta_max h) = nat \<lceil>(eta_max + h - 0) / h\<rceil>"
    by (simp add: eta_grid_def)
  ultimately show ?thesis by (simp only: c)
qed

lemma eta_grid_empty:
  assumes "0 < h" "eta_max \<le> - h"
  shows "eta_grid eta_max h = []"
proof -
  from assms have "(eta_max + h - 0) / h \<le> 0" by (simp add: field_simps)
  then have "\<lceil>(eta_max + h - 0) / h\<rceil> \<le> 0" by linarith
  then show ?thesis by (simp add: eta_grid_def)
qed

lemma eta_grid_nth: "i < length (eta_grid eta_max h) \<Longrightarrow> eta_grid eta_max h ! i = real i * h"
  by (simp add: eta_grid_def)

lemma eta_grid_sorted: "0 < h \<Longrightarrow> sorted_wrt (<) (eta_grid eta_max h)"
  by (simp add: sorted_wrt_iff_nth_less eta_grid_nth)

lemma eta_grid_spacing:
  "Suc i < length (eta_grid eta_max h) \<Longrightarrow> eta_grid eta_max h ! Suc i - eta_grid eta_max h ! i = h"
  by (simp add: eta_grid_nth algebra_simps)

lemma step_zero: "spec_rk4_step h (Fin 0, Fin 0, Fin 0) = (Fin 0, Fin 0, Fin 0)"
  by (simp add: spec_rk4_step_def spec_D_def vadd_def vscale_def vdiv_def Let_def)

lemma zero_loop:
  "0 < m \<Longrightarrow> rk4_loop n h (replicate m (Fin 0), replicate m (Fin 0), replicate m (Fin 0)) =
     (replicate (m + n) (Fin 0), replicate (m + n) (Fin 0), replicate (m + n) (Fin 0))"
proof (induction n arbitrary: m)
  case 0
  then show ?case by simp
next
  case (Suc n)
  from Suc.prems have "rk4_body h (replicate m (Fin 0), replicate m (Fin 0), replicate m (Fin 0)) =
     (replicate (Suc m) (Fin 0), replicate (Suc m) (Fin 0), replicate (Suc m) (Fin 0))"
    by (simp add: rk4_body_step step_zero replicate_append_same)
  with Suc.IH [of "Suc m"] show ?case by simp
qed

lemma traj_zero:
  "traj (Fin 0) eta_max h =
     (replicate (Suc (length (eta_grid eta_max h) - 1)) (Fin 0),
      replicate (Suc (length (eta_grid eta_max h) - 1)) (Fin 0),
      replicate (Suc (length (eta_grid eta_max h) - 1)) (Fin 0))"
  using zero_loop [of 1 "length (eta_grid eta_max h) - 1" h] by (simp add: traj_def)

lemma step_nan: "\<exists>a. spec_rk4_step h (x, NaN, NaN) = (a, NaN, NaN)"
  by (simp add: spec_rk4_step_def spec_D_def vadd_def vscale_def vdiv_def Let_def)

lemma step_nonfinite:
  "h \<noteq> 0 \<Longrightarrow> nonfinite x \<Longrightarrow> \<exists>a. spec_rk4_step h (Fin 0, Fin 0, x) = (a, NaN, NaN)"
  by (cases x) (simp_all add: spec_rk4_step_def spec_D_def vadd_def vscale_def vdiv_def Let_def)

lemma rk_three_example:
  "runge_kutta_4th_order (Fin 0) 2 1 =
     Inr ([Fin 0, Fin 0, Fin 0], [Fin 0, Fin 0, Fin 0], [Fin 0, Fin 0, Fin 0], [0, 1, 2])"
  by (simp add: rk_returns traj_zero eta_grid_def numeral_3_eq_3 upt_rec)

section \<open>Lemmas on float64 rounding and the grid\<close>

declare log2_down.simps [simp del] log2_up.simps [simp del]

lemma pow2_Suc: "(2::real) powi (k + 1) = 2 powi k * 2"
  by (simp add: power_int_add)

lemma log2_down_spec:
  "1 \<le> a \<Longrightarrow> 2 powi log2_down a \<le> a \<and> a < 2 powi (log2_down a + 1)"
proof (induction a rule: log2_down.induct)
  case (1 a)
  show ?case
  proof (cases "2 \<le> a")
    case True
    then have u: "log2_down a = log2_down (a / 2) + 1" by (subst log2_down.simps) simp
    from True have "1 \<le> a / 2" by simp
    from "1.IH" [OF True this]
    have "2 powi log2_down (a / 2) \<le> a / 2" "a / 2 < 2 powi (log2_down (a / 2) + 1)"
      by simp_all
    then show ?thesis unfolding u pow2_Suc by simp
  next
    case False
    then have u: "log2_down a = 0" by (subst log2_down.simps) simp
    from False "1.prems" show ?thesis unfolding u by simp
  qed
qed

lemma log2_up_spec:
  "0 < a \<Longrightarrow> a < 1 \<Longrightarrow> 2 powi log2_up a \<le> a \<and> a < 2 powi (log2_up a + 1)"
proof (induction a rule: log2_up.induct)
  case (1 a)
  from "1.prems" have c: "0 < a \<and> a < 1" by simp
  then have u: "log2_up a = log2_up (2 * a) - 1" by (subst log2_up.simps) simp
  have p: "(2::real) powi (log2_up (2 * a) - 1) = 2 powi log2_up (2 * a) / 2"
    by (simp add: power_int_diff)
  have q: "log2_up (2 * a) - 1 + 1 = log2_up (2 * a)" by simp
  show ?case
  proof (cases "2 * a < 1")
    case True
    from "1.prems" have "0 < 2 * a" by simp
    from "1.IH" [OF c this True]
    have "2 powi log2_up (2 * a) \<le> 2 * a" "2 * a < 2 powi (log2_up (2 * a) + 1)" by simp_all
    then show ?thesis unfolding u p q pow2_Suc by simp
  next
    case False
    then have l: "log2_up (2 * a) = 0" by (subst log2_up.simps) simp
    from c False show ?thesis unfolding u p q l by simp
  qed
qed

lemma ilog2_spec: "0 < a \<Longrightarrow> 2 powi ilog2 a \<le> a \<and> a < 2 powi (ilog2 a + 1)"
  using log2_down_spec [of a] log2_up_spec [of a] by (simp add: ilog2_def)

lemma ilog2_unique:
  assumes "2 powi k \<le> a" and "a < 2 powi (k + 1)"
  shows "ilog2 a = k"
proof -
  have a: "0 < a" using assms(1) zero_less_power_int [of "2::real" k] by linarith
  note s = ilog2_spec [OF a]
  have "\<not> ilog2 a < k"
  proof
    assume "ilog2 a < k"
    then have "ilog2 a + 1 \<le> k" by simp
    then have "(2::real) powi (ilog2 a + 1) \<le> 2 powi k" by (intro power_int_increasing) simp_all
    with s assms show False by linarith
  qed
  moreover have "\<not> k < ilog2 a"
  proof
    assume "k < ilog2 a"
    then have "k + 1 \<le> ilog2 a" by simp
    then have "(2::real) powi (k + 1) \<le> 2 powi ilog2 a" by (intro power_int_increasing) simp_all
    with s assms show False by linarith
  qed
  ultimately show ?thesis by simp
qed

lemma round_even_err: "\<bar>of_int (round_even y) - y\<bar> \<le> 1 / 2"
proof -
  have "of_int \<lfloor>y\<rfloor> \<le> y" "y < of_int \<lfloor>y\<rfloor> + 1" by linarith+
  then show ?thesis by (auto simp: round_even_def Let_def)
qed

lemma round_even_of_int: "round_even (of_int n) = n"
  by (simp add: round_even_def)

lemma round64_0: "round64 0 = 0"
  by (simp add: round64_def)

lemma round64_eq:
  assumes "2 powi (k + 52) \<le> \<bar>x\<bar>" and "\<bar>x\<bar> < 2 powi (k + 53)"
  shows "round64 x = of_int (round_even (x / 2 powi k)) * 2 powi k"
proof -
  have "0 < \<bar>x\<bar>" using assms(1) zero_less_power_int [of "2::real" "k + 52"] by linarith
  then have x: "x \<noteq> 0" by simp
  have "k + 53 = k + 52 + 1" by simp
  with assms have "ilog2 \<bar>x\<bar> = k + 52" by (intro ilog2_unique) simp_all
  with x show ?thesis by (simp add: round64_def Let_def)
qed

lemma round64_err: "\<bar>round64 x - x\<bar> \<le> \<bar>x\<bar> / 2 ^ 53"
proof (cases "x = 0")
  case True
  then show ?thesis by (simp add: round64_0)
next
  case False
  define e where "e = ilog2 \<bar>x\<bar> - 52"
  define p where "p = (2::real) powi e"
  have p: "0 < p" by (simp add: p_def)
  from False have "0 < \<bar>x\<bar>" by simp
  from ilog2_spec [OF this] have "2 powi (e + 52) \<le> \<bar>x\<bar>" by (simp add: e_def)
  then have lo: "p * 2 ^ 52 \<le> \<bar>x\<bar>" by (simp add: p_def power_int_add)
  have r: "round64 x = of_int (round_even (x / p)) * p"
    using False by (simp add: round64_def e_def p_def Let_def)
  have "round64 x - x = (of_int (round_even (x / p)) - x / p) * p"
    using p by (simp add: r field_simps)
  then have "\<bar>round64 x - x\<bar> = \<bar>of_int (round_even (x / p)) - x / p\<bar> * p"
    using p by (simp add: abs_mult)
  also have "\<dots> \<le> 1 / 2 * p"
    using round_even_err [of "x / p"] p by (intro mult_right_mono) simp_all
  also have "\<dots> = p * 2 ^ 52 / 2 ^ 53" by simp
  also have "\<dots> \<le> \<bar>x\<bar> / 2 ^ 53" using lo by (intro divide_right_mono) simp_all
  finally show ?thesis .
qed

lemma round64_pos: "0 < x \<Longrightarrow> 0 < round64 x"
proof -
  assume x: "0 < x"
  have "x / 2 ^ 53 < x" using x by (simp add: field_simps)
  with round64_err [of x] x show ?thesis by linarith
qed

lemma round64_nonpos: "x \<le> 0 \<Longrightarrow> round64 x \<le> 0"
proof -
  assume x: "x \<le> 0"
  have "\<bar>x\<bar> / 2 ^ 53 \<le> \<bar>x\<bar>" by (simp add: field_simps)
  with round64_err [of x] x show ?thesis by linarith
qed

lemma round_even_bounds:
  assumes "2 ^ 52 \<le> \<bar>y\<bar>" and "\<bar>y\<bar> < 2 ^ 53"
  shows "\<bar>round_even y\<bar> \<le> 2 ^ 53"
proof -
  have "\<bar>real_of_int (round_even y)\<bar> \<le> \<bar>y\<bar> + 1 / 2"
    using round_even_err [of y] by linarith
  with assms(2) have "\<bar>real_of_int (round_even y)\<bar> < 2 ^ 53 + 1" by linarith
  then have "real_of_int \<bar>round_even y\<bar> < real_of_int (2 ^ 53 + 1)" by simp
  then have "\<bar>round_even y\<bar> < 2 ^ 53 + 1" by (simp only: of_int_less_iff)
  then show ?thesis by simp
qed

lemma ilog2_int_bounds:
  assumes "1 \<le> \<bar>m\<bar>" and "\<bar>m\<bar> < (2::int) ^ 53"
  shows "ilog2 \<bar>real_of_int m\<bar> \<le> 52"
proof (rule ccontr)
  assume "\<not> ilog2 \<bar>real_of_int m\<bar> \<le> 52"
  then have "53 \<le> ilog2 \<bar>real_of_int m\<bar>" by simp
  then have "(2::real) powi 53 \<le> 2 powi ilog2 \<bar>real_of_int m\<bar>"
    by (intro power_int_increasing) simp_all
  moreover from assms(1) have "0 < \<bar>real_of_int m\<bar>" by simp
  from ilog2_spec [OF this] have "2 powi ilog2 \<bar>real_of_int m\<bar> \<le> \<bar>real_of_int m\<bar>" by simp
  moreover from assms(2) have "real_of_int \<bar>m\<bar> < real_of_int (2 ^ 53)"
    by (simp only: of_int_less_iff)
  ultimately show False by simp
qed

lemma round64_representable:
  assumes "\<bar>m\<bar> \<le> (2::int) ^ 53"
  shows "round64 (of_int m * 2 powi k) = of_int m * 2 powi k"
proof -
  define x where "x = real_of_int m * 2 powi k"
  have pk: "0 < (2::real) powi k" by simp
  have ax: "\<bar>x\<bar> = \<bar>real_of_int m\<bar> * 2 powi k" by (simp add: x_def abs_mult)
  consider "m = 0" | "\<bar>m\<bar> = 2 ^ 53" | "1 \<le> \<bar>m\<bar>" "\<bar>m\<bar> < 2 ^ 53"
    using assms by linarith
  then have "round64 x = x"
  proof cases
    case 1
    then show ?thesis by (simp add: x_def round64_0)
  next
    case 2
    then have am: "\<bar>real_of_int m\<bar> = 2 ^ 53"
      by (metis of_int_abs of_int_numeral of_int_power)
    have e: "(2::real) powi (k + 1 + 52) = 2 ^ 53 * 2 powi k"
      by (simp add: power_int_add)
    have e': "(2::real) powi (k + 1 + 53) = 2 ^ 54 * 2 powi k"
      by (simp add: power_int_add)
    have lo: "2 powi (k + 1 + 52) \<le> \<bar>x\<bar>" unfolding e ax am by simp
    have hi: "\<bar>x\<bar> < 2 powi (k + 1 + 53)" unfolding e' ax am using pk by simp
    from 2 have "even m" by (metis abs_if even_minus even_numeral even_power zero_less_numeral)
    then obtain j where j: "m = 2 * j" by (elim evenE)
    have q: "x / 2 powi (k + 1) = of_int j" by (simp add: x_def j power_int_add)
    have "round64 x = of_int j * 2 powi (k + 1)"
      by (simp only: round64_eq [OF lo hi] q round_even_of_int)
    also have "\<dots> = x" by (simp add: x_def j power_int_add)
    finally show ?thesis .
  next
    case 3
    define i where "i = ilog2 \<bar>real_of_int m\<bar>"
    from 3(1) have pos: "0 < \<bar>real_of_int m\<bar>" by simp
    note s = ilog2_spec [OF pos, folded i_def]
    from ilog2_int_bounds [OF 3] have i: "i \<le> 52" by (simp add: i_def)
    define k' where "k' = k + i - 52"
    have e: "(2::real) powi (k' + 52) = 2 powi i * 2 powi k"
      by (simp add: k'_def power_int_add)
    have e': "(2::real) powi (k' + 53) = 2 powi (i + 1) * 2 powi k"
      by (simp add: k'_def power_int_add)
    have lo: "2 powi (k' + 52) \<le> \<bar>x\<bar>" unfolding e ax using s pk by simp
    have hi: "\<bar>x\<bar> < 2 powi (k' + 53)" unfolding e' ax using s pk by simp
    have d: "(2::real) powi k = 2 powi k' * 2 ^ nat (52 - i)"
    proof -
      have "k = k' + int (nat (52 - i))" using i by (simp add: k'_def)
      then have "(2::real) powi k = 2 powi (k' + int (nat (52 - i)))" by simp
      also have "\<dots> = 2 powi k' * 2 powi int (nat (52 - i))" by (rule power_int_add) simp
      finally show ?thesis by (simp only: power_int_of_nat)
    qed
    have q: "x / 2 powi k' = of_int (m * 2 ^ nat (52 - i))"
      by (simp add: x_def d)
    have "round64 x = of_int (m * 2 ^ nat (52 - i)) * 2 powi k'"
      by (simp only: round64_eq [OF lo hi] q round_even_of_int)
    also have "\<dots> = x" by (simp add: x_def d)
    finally show ?thesis .
  qed
  then show ?thesis by (simp add: x_def)
qed

lemma round64_idem: "round64 (round64 x) = round64 x"
proof (cases "x = 0")
  case True
  then show ?thesis by (simp add: round64_0)
next
  case False
  define e where "e = ilog2 \<bar>x\<bar> - 52"
  define p where "p = (2::real) powi e"
  have p: "0 < p" by (simp add: p_def)
  from False have "0 < \<bar>x\<bar>" by simp
  have eq: "e + 52 = ilog2 \<bar>x\<bar>" "e + 53 = ilog2 \<bar>x\<bar> + 1" by (simp_all add: e_def)
  from ilog2_spec [OF \<open>0 < \<bar>x\<bar>\<close>]
  have "2 powi (e + 52) \<le> \<bar>x\<bar>" "\<bar>x\<bar> < 2 powi (e + 53)"
    unfolding eq by blast+
  then have "p * 2 ^ 52 \<le> \<bar>x\<bar>" "\<bar>x\<bar> < p * 2 ^ 53"
    by (simp_all add: p_def power_int_add)
  then have b: "2 ^ 52 \<le> \<bar>x / p\<bar>" "\<bar>x / p\<bar> < 2 ^ 53"
    using p by (simp_all add: field_simps)
  have r: "round64 x = of_int (round_even (x / p)) * 2 powi e"
    using False by (simp add: round64_def e_def p_def Let_def)
  show ?thesis unfolding r by (rule round64_representable [OF round_even_bounds [OF b]])
qed

lemma eta_float64_eq:
  assumes "h \<noteq> 0" and "round64 h = h"
  shows "eta_float64 eta_max h =
     Inr (map (\<lambda>i. round64 (real i * h)) [0..<grid_len64 eta_max h])"
  using assms
  by (simp add: eta_float64_def arange64_def grid_len64_def Let_def round64_idem round64_0)

lemma grid_len64_empty:
  assumes "0 < h" and "eta_max + h \<le> 0"
  shows "grid_len64 eta_max h = 0"
proof -
  from round64_nonpos [OF assms(2)] assms(1) have "round64 (eta_max + h) / h \<le> 0"
    by (simp add: field_simps)
  from round64_nonpos [OF this] have "\<lceil>round64 (round64 (eta_max + h) / h)\<rceil> \<le> 0"
    by linarith
  then show ?thesis by (simp add: grid_len64_def)
qed

lemma grid_len64_pos:
  assumes "0 < h" and "0 < eta_max + h"
  shows "0 < grid_len64 eta_max h"
    and "int (grid_len64 eta_max h) = \<lceil>round64 (round64 (eta_max + h) / h)\<rceil>"
proof -
  from round64_pos [OF assms(2)] assms(1) have "0 < round64 (eta_max + h) / h" by simp
  from round64_pos [OF this] have "0 < \<lceil>round64 (round64 (eta_max + h) / h)\<rceil>"
    by linarith
  then show "0 < grid_len64 eta_max h"
    and "int (grid_len64 eta_max h) = \<lceil>round64 (round64 (eta_max + h) / h)\<rceil>"
    by (simp_all add: grid_len64_def)
qed

text \<open>The rounded quotient is close to the exact one.\<close>

lemma quotient_err:
  assumes "0 < h" and "0 < eta_max + h" and "eta_max / h + 1 \<le> 2 ^ 50"
  shows "\<bar>round64 (round64 (eta_max + h) / h) - (eta_max / h + 1)\<bar> \<le> 3 / 8"
proof -
  define s where "s = eta_max + h"
  define q where "q = s / h"
  define u where "u = (1::real) / 2 ^ 53"
  have q: "q = eta_max / h + 1" using assms(1) by (simp add: q_def s_def field_simps)
  have qpos: "0 < q" using assms(1,2) by (simp add: q_def s_def)
  have u: "0 < u" "u \<le> 1" by (simp_all add: u_def)
  have "\<bar>round64 s - s\<bar> \<le> s * u"
    using round64_err [of s] assms(2) by (simp add: s_def u_def)
  then have "\<bar>round64 s / h - q\<bar> \<le> q * u"
  proof -
    assume a: "\<bar>round64 s - s\<bar> \<le> s * u"
    have "round64 s / h - q = (round64 s - s) / h" by (simp add: q_def diff_divide_distrib)
    then have "\<bar>round64 s / h - q\<bar> = \<bar>round64 s - s\<bar> / h" using assms(1) by simp
    also have "\<dots> \<le> s * u / h" using a assms(1) by (intro divide_right_mono) simp_all
    finally show ?thesis by (simp add: q_def)
  qed
  then have 1: "\<bar>round64 s / h - q\<bar> \<le> q * u" .
  then have "\<bar>round64 s / h\<bar> \<le> q + q * u" using qpos by linarith
  then have "\<bar>round64 s / h\<bar> * u \<le> (q + q * u) * u"
    using u by (intro mult_right_mono) simp_all
  with round64_err [of "round64 s / h"]
  have 2: "\<bar>round64 (round64 s / h) - round64 s / h\<bar> \<le> (q + q * u) * u"
    by (simp add: u_def)
  have "(q + q * u) * u \<le> (q + q) * u" using qpos u by (intro mult_right_mono) simp_all
  moreover have "(q + q) * u = 2 * (q * u)" by simp
  ultimately have "\<bar>round64 (round64 s / h) - q\<bar> \<le> 3 * (q * u)" using 1 2 by linarith
  also have "q * u \<le> 2 ^ 50 * u" using assms(3) u by (intro mult_right_mono) (simp_all add: q)
  also have "3 * (2 ^ 50 * u) = 3 / 8" by (simp add: u_def)
  finally show ?thesis by (simp add: s_def q)
qed

lemma grid_len64_near:
  assumes "0 < h" and "0 < eta_max + h" and "eta_max / h + 1 \<le> 2 ^ 50"
  shows "\<bar>int (grid_len64 eta_max h) - (\<lceil>eta_max / h\<rceil> + 1)\<bar> \<le> 1"
proof -
  define q where "q = eta_max / h + 1"
  define r where "r = round64 (round64 (eta_max + h) / h)"
  from quotient_err [OF assms] have "\<bar>r - q\<bar> \<le> 3 / 8" by (simp add: r_def q_def)
  then have "\<bar>\<lceil>r\<rceil> - \<lceil>q\<rceil>\<bar> \<le> 1" by linarith
  moreover have "\<lceil>q\<rceil> = \<lceil>eta_max / h\<rceil> + 1" by (simp add: q_def)
  ultimately show ?thesis using grid_len64_pos(2) [OF assms(1,2)] by (simp add: r_def)
qed

lemma product_err:
  assumes "0 < h"
  shows "\<bar>round64 (real i * h) - real i * h\<bar> \<le> real i * h / 2 ^ 53"
  using round64_err [of "real i * h"] assms by (simp add: abs_mult)

lemma spacing_err:
  assumes "0 < h"
  shows "\<bar>round64 (real (Suc i) * h) - round64 (real i * h) - h\<bar> \<le> (2 * real i + 1) * h / 2 ^ 53"
proof -
  have e: "real (Suc i) * h = real i * h + h" by (simp add: algebra_simps)
  have "(2 * real i + 1) * h / 2 ^ 53 = (real i * h + h) / 2 ^ 53 + real i * h / 2 ^ 53"
    by (simp add: algebra_simps add_divide_distrib)
  with product_err [OF assms, of "Suc i"] product_err [OF assms, of i] show ?thesis
    unfolding e by linarith
qed

lemma products_increasing:
  assumes "0 < h" and "i < j" and "real j \<le> 2 ^ 50 + 2"
  shows "round64 (real i * h) < round64 (real j * h)"
proof -
  from assms(2) have "real i + 1 \<le> real j" by simp
  then have "(real i + 1) * h \<le> real j * h" using assms(1) by (intro mult_right_mono) simp_all
  then have 1: "real i * h + h \<le> real j * h" by (simp add: algebra_simps)
  from assms(3) have "real j * h \<le> (2 ^ 50 + 2) * h"
    using assms(1) by (intro mult_right_mono) simp_all
  then have 2: "real j * h \<le> 1125899906842626 * h" by simp
  have 3: "0 \<le> real i * h" using assms(1) by simp
  have u: "real j * h / 2 ^ 53 = real j * h / 9007199254740992"
    "real i * h / 2 ^ 53 = real i * h / 9007199254740992" by simp_all
  from product_err [OF assms(1), of i] product_err [OF assms(1), of j] 1 2 3 assms(1)
  show ?thesis unfolding u by linarith
qed

lemma grid64_examples:
  "round64 (1 / 2) = 1 / 2"
  "round64 (1 + 1 / 2) = 1 + 1 / 2"
  "round64 ((1 + 1 / 2) / (1 / 2)) = (1 + 1 / 2) / (1 / 2)"
  "eta_float64 1 (1 / 2) = Inr [0, 1 / 2, 1]"
  "eta_float64 (- 2) 1 = Inr []"
  "round64 (1 / 10) = 3602879701896397 / 36028797018963968"
  "round64 (2 / 10) = 3602879701896397 / 18014398509481984"
  "eta_float64 (3602879701896397 / 18014398509481984) (3602879701896397 / 36028797018963968) =
     Inr [0, 3602879701896397 / 36028797018963968, 3602879701896397 / 18014398509481984,
          1351079888211149 / 4503599627370496]"
  by code_simp+

lemma eta_float64_exact:
  assumes "runge_kutta_4th_order f1_0 eta_max h = Inr (f, fp, fpp, eta)"
    and "round64 h = h"
    and "round64 (eta_max + h) = eta_max + h"
    and "round64 ((eta_max + h) / h) = (eta_max + h) / h"
    and "\<forall>i < length eta. round64 (real i * h) = real i * h"
  shows "eta_float64 eta_max h = Inr eta"
proof -
  from assms(1) have h: "h \<noteq> 0" and eta: "eta = eta_grid eta_max h"
    by (simp_all add: rk_Inr_iff)
  have n: "grid_len64 eta_max h = length eta"
    by (simp add: grid_len64_def eta eta_grid_def assms(3,4))
  have "map (\<lambda>i. round64 (real i * h)) [0..<length eta] = map (\<lambda>i. 0 + real i * h) [0..<length eta]"
    using assms(5) by simp
  also have "\<dots> = eta" by (simp add: eta eta_grid_def)
  finally show ?thesis by (simp add: eta_float64_eq [OF h assms(2)] n)
qed

section \<open>Properties of the integrator\<close>

text \<open>
  C1.  Each integrator step from grid point \<open>i - 1\<close> to \<open>i\<close> is the step of the
  specification: with \<open>s\<close> the state at \<open>i - 1\<close>, \<open>k1 = h * D(s)\<close>,
  \<open>k2 = h * D(s + 0.5 * k1)\<close>, \<open>k3 = h * D(s + 0.5 * k2)\<close>, \<open>k4 = h * D(s + k3)\<close>, and the
  state at \<open>i\<close> is \<open>s + (k1 + 2 * k2 + 2 * k3 + k4) / 6\<close>.  The second and third
  conjuncts spell out that \<open>D\<close> at an intermediate state takes the nonlinear term
  \<open>-0.5 * f * f''\<close> at the updated \<open>f\<close> and \<open>f''\<close> components.
\<close>

theorem rk4_step_formula:
  assumes "runge_kutta_4th_order f1_0 eta_max h = Inr (f, fp, fpp, eta)"
    and "0 < i" and "i < length eta"
  shows "(f ! i, fp ! i, fpp ! i) = spec_rk4_step h (f ! (i - 1), fp ! (i - 1), fpp ! (i - 1))
    \<and> spec_D (vadd (a, b, c) (vscale x (ka, kb, kc))) =
        (b + x * kb, c + x * kc, Fin (- 0.5) * (a + x * ka) * (c + x * kc))
    \<and> spec_D (vadd (a, b, c) (ka, kb, kc)) = (b + kb, c + kc, Fin (- 0.5) * (a + ka) * (c + kc))"
proof -
  from assms(1) have tr: "traj f1_0 eta_max h = (f, fp, fpp)" and eta: "eta = eta_grid eta_max h"
    by (simp_all add: rk_Inr_iff)
  from traj_length [OF tr] assms(3) eta have "Suc (i - 1) < length f" using assms(2) by simp
  moreover from traj_steps_ok [of h f1_0 eta_max] tr have "steps_ok h (f, fp, fpp)" by simp
  ultimately have "state_at (f, fp, fpp) (Suc (i - 1)) = spec_rk4_step h (state_at (f, fp, fpp) (i - 1))"
    by (simp add: steps_ok_def)
  with assms(2) show ?thesis by (simp add: state_at_def spec_D_def vadd_def vscale_def)
qed

theorem rk4_step_formula_witness:
  "runge_kutta_4th_order (Fin 1) 1 1 =
     Inr ([Fin 0, Fin (1 / 2)], [Fin 0, Fin (47 / 48)], [Fin 1, Fin (59 / 64)], [0, 1])
   \<and> (0::nat) < 1 \<and> 1 < length [0, 1::real]
   \<and> (Fin (1 / 2), Fin (47 / 48), Fin (59 / 64)) = spec_rk4_step 1 (Fin 0, Fin 0, Fin 1)"
  using rk4_step_formula [OF rk_example, of 1] rk_example by simp

text \<open>
  C6.  For a float64 step \<open>h > 0\<close>: the grid of line 47 is empty when \<open>eta_max \<le> -h\<close>;
  when \<open>eta_max > -h\<close> it starts at 0 and its length is the ceiling of the float
  quotient of the float sum \<open>eta_max + h\<close> by \<open>h\<close>.  Its element \<open>i\<close> is the float product
  \<open>i * h\<close>, so consecutive points differ by \<open>h\<close> up to the rounding of two products.
  When \<open>eta_max / h + 1 \<le> 2^50\<close> it is strictly increasing and its length is within 1 of
  \<open>\<lceil>eta_max / h\<rceil> + 1\<close>.  The length is \<open>\<lceil>eta_max / h\<rceil> + 1\<close> when the sum and the quotient
  are not rounded, and the spacing is \<open>h\<close> when the products are not rounded.
\<close>

theorem grid_property:
  assumes "0 < h" and "round64 h = h"
  shows "\<exists>eta. eta_float64 eta_max h = Inr eta \<and>
      (eta_max \<le> - h \<longrightarrow> eta = []) \<and>
      (- h < eta_max \<longrightarrow>
         eta \<noteq> [] \<and> eta ! 0 = 0 \<and>
         int (length eta) = \<lceil>round64 (round64 (eta_max + h) / h)\<rceil>) \<and>
      (\<forall>i < length eta. eta ! i = round64 (real i * h)) \<and>
      (\<forall>i. Suc i < length eta \<longrightarrow>
         \<bar>eta ! Suc i - eta ! i - h\<bar> \<le> (2 * real i + 1) * h / 2 ^ 53) \<and>
      (eta_max / h + 1 \<le> 2 ^ 50 \<longrightarrow>
         sorted_wrt (<) eta \<and>
         (- h < eta_max \<longrightarrow> \<bar>int (length eta) - (\<lceil>eta_max / h\<rceil> + 1)\<bar> \<le> 1)) \<and>
      (- h < eta_max \<and> round64 (eta_max + h) = eta_max + h \<and>
       round64 ((eta_max + h) / h) = (eta_max + h) / h \<longrightarrow>
         int (length eta) = \<lceil>eta_max / h\<rceil> + 1) \<and>
      ((\<forall>i < length eta. round64 (real i * h) = real i * h) \<longrightarrow>
         (\<forall>i. Suc i < length eta \<longrightarrow> eta ! Suc i - eta ! i = h))"
proof -
  define n where "n = grid_len64 eta_max h"
  define eta where "eta = map (\<lambda>i. round64 (real i * h)) [0..<n]"
  from assms have h: "h \<noteq> 0" by simp
  have run: "eta_float64 eta_max h = Inr eta"
    unfolding eta_def n_def by (rule eta_float64_eq [OF h assms(2)])
  have len: "length eta = n" by (simp add: eta_def)
  have nth: "eta ! i = round64 (real i * h)" if "i < n" for i
    using that by (simp add: eta_def)
  have 1: "eta = []" if "eta_max \<le> - h"
  proof -
    from that have "eta_max + h \<le> 0" by simp
    from grid_len64_empty [OF assms(1) this] show ?thesis by (simp add: eta_def n_def)
  qed
  have 2: "eta \<noteq> [] \<and> eta ! 0 = 0 \<and>
         int (length eta) = \<lceil>round64 (round64 (eta_max + h) / h)\<rceil>" if "- h < eta_max"
  proof -
    from that have p: "0 < eta_max + h" by simp
    note g = grid_len64_pos [OF assms(1) p, folded n_def]
    from g(1) have "eta \<noteq> []" using len by auto
    moreover from g(1) have "eta ! 0 = 0" by (simp add: nth round64_0)
    ultimately show ?thesis using g(2) len by simp
  qed
  have 3: "\<forall>i < length eta. eta ! i = round64 (real i * h)"
    using nth len by simp
  have 4: "\<forall>i. Suc i < length eta \<longrightarrow>
         \<bar>eta ! Suc i - eta ! i - h\<bar> \<le> (2 * real i + 1) * h / 2 ^ 53"
  proof (intro allI impI)
    fix i assume "Suc i < length eta"
    then have "Suc i < n" "i < n" using len by simp_all
    then show "\<bar>eta ! Suc i - eta ! i - h\<bar> \<le> (2 * real i + 1) * h / 2 ^ 53"
      using spacing_err [OF assms(1), of i] by (simp only: nth)
  qed
  have near: "\<bar>int (length eta) - (\<lceil>eta_max / h\<rceil> + 1)\<bar> \<le> 1"
    if "eta_max / h + 1 \<le> 2 ^ 50" "- h < eta_max"
  proof -
    from that(2) have p: "0 < eta_max + h" by simp
    from grid_len64_near [OF assms(1) p that(1)] show ?thesis by (simp add: len n_def)
  qed
  have 5: "sorted_wrt (<) eta" if q: "eta_max / h + 1 \<le> 2 ^ 50"
  proof (cases "- h < eta_max")
    case False
    then have "eta = []" using 1 by simp
    then show ?thesis by simp
  next
    case True
    have "\<lceil>eta_max / h\<rceil> + 1 = \<lceil>eta_max / h + 1\<rceil>" by simp
    also from q have "\<dots> \<le> 2 ^ 50" by (simp only: ceiling_le_iff) simp
    finally have "\<lceil>eta_max / h\<rceil> + 1 \<le> 2 ^ 50" .
    with near [OF q True] have "int n \<le> 2 ^ 50 + 1" using len by linarith
    then have nb: "real n \<le> 2 ^ 50 + 1"
      by (metis (mono_tags) of_int_le_iff of_int_of_nat_eq of_int_add of_int_numeral of_int_power of_int_1)
    show ?thesis
      unfolding sorted_wrt_iff_nth_less
    proof (intro allI impI)
      fix i j assume ij: "i < j" "j < length eta"
      then have "i < n" "j < n" using len by simp_all
      moreover from \<open>j < n\<close> nb have "real j \<le> 2 ^ 50 + 2" by simp
      ultimately show "eta ! i < eta ! j"
        using products_increasing [OF assms(1) ij(1)] by (simp only: nth)
    qed
  qed
  have 6: "int (length eta) = \<lceil>eta_max / h\<rceil> + 1"
    if "- h < eta_max \<and> round64 (eta_max + h) = eta_max + h \<and>
       round64 ((eta_max + h) / h) = (eta_max + h) / h"
  proof -
    from that have "int (length eta) = \<lceil>(eta_max + h) / h\<rceil>" using 2 by simp
    also have "(eta_max + h) / h = eta_max / h + 1" using h by (simp add: field_simps)
    finally show ?thesis by simp
  qed
  have 7: "\<forall>i. Suc i < length eta \<longrightarrow> eta ! Suc i - eta ! i = h"
    if ex: "\<forall>i < length eta. round64 (real i * h) = real i * h"
  proof (intro allI impI)
    fix i assume s: "Suc i < length eta"
    then have b: "Suc i < n" "i < n" "i < length eta" using len by simp_all
    from ex s have "round64 (real (Suc i) * h) = real (Suc i) * h" by blast
    moreover from ex b(3) have "round64 (real i * h) = real i * h" by blast
    ultimately have "eta ! Suc i - eta ! i = real (Suc i) * h - real i * h"
      by (simp only: nth [OF b(1)] nth [OF b(2)])
    also have "\<dots> = h" by (simp add: algebra_simps)
    finally show "eta ! Suc i - eta ! i = h" .
  qed
  from run 1 2 3 4 5 near 6 7 show ?thesis by (intro exI [of _ eta]) blast
qed

theorem grid_property_witness:
  "(0::real) < 1 / 2 \<and> round64 (1 / 2) = 1 / 2 \<and> - (1 / 2) < (1::real) \<and>
   (1::real) / (1 / 2) + 1 \<le> 2 ^ 50 \<and>
   round64 (1 + 1 / 2) = 1 + 1 / 2 \<and> round64 ((1 + 1 / 2) / (1 / 2)) = (1 + 1 / 2) / (1 / 2) \<and>
   eta_float64 1 (1 / 2) = Inr [0, 1 / 2, 1] \<and>
   [0, 1 / 2, 1 :: real] ! 0 = 0 \<and>
   int (length [0, 1 / 2, 1 :: real]) = \<lceil>(1::real) / (1 / 2)\<rceil> + 1 \<and>
   sorted_wrt (<) [0, 1 / 2, 1 :: real] \<and>
   \<bar>[0, 1 / 2, 1 :: real] ! Suc 0 - [0, 1 / 2, 1] ! 0 - 1 / 2\<bar> \<le> (2 * real 0 + 1) * (1 / 2) / 2 ^ 53"
proof -
  have h: "(0::real) < 1 / 2" by simp
  have a: "- (1 / 2) < (1::real)" and q: "(1::real) / (1 / 2) + 1 \<le> 2 ^ 50" by simp_all
  from grid_property [OF h grid64_examples(1), of 1] obtain eta where
    e: "eta_float64 1 (1 / 2) = Inr eta"
    and first: "- (1 / 2) < (1::real) \<longrightarrow> eta \<noteq> [] \<and> eta ! 0 = 0 \<and>
         int (length eta) = \<lceil>round64 (round64 (1 + 1 / 2) / (1 / 2))\<rceil>"
    and sp: "\<forall>i. Suc i < length eta \<longrightarrow>
         \<bar>eta ! Suc i - eta ! i - 1 / 2\<bar> \<le> (2 * real i + 1) * (1 / 2) / 2 ^ 53"
    and so: "(1::real) / (1 / 2) + 1 \<le> 2 ^ 50 \<longrightarrow> sorted_wrt (<) eta \<and>
         (- (1 / 2) < (1::real) \<longrightarrow> \<bar>int (length eta) - (\<lceil>(1::real) / (1 / 2)\<rceil> + 1)\<bar> \<le> 1)"
    and ex: "- (1 / 2) < (1::real) \<and> round64 (1 + 1 / 2) = 1 + 1 / 2 \<and>
       round64 ((1 + 1 / 2) / (1 / 2)) = (1 + 1 / 2) / (1 / 2) \<longrightarrow>
         int (length eta) = \<lceil>(1::real) / (1 / 2)\<rceil> + 1"
    by blast
  from e grid64_examples(4) have eta: "eta = [0, 1 / 2, 1]" by simp
  from first a have 1: "[0, 1 / 2, 1 :: real] ! 0 = 0" unfolding eta by blast
  from ex a grid64_examples(2,3)
  have 2: "int (length [0, 1 / 2, 1 :: real]) = \<lceil>(1::real) / (1 / 2)\<rceil> + 1"
    unfolding eta by blast
  from so q have 3: "sorted_wrt (<) [0, 1 / 2, 1 :: real]" unfolding eta by blast
  have "Suc 0 < length [0, 1 / 2, 1 :: real]" by simp
  with sp have 4: "\<bar>[0, 1 / 2, 1 :: real] ! Suc 0 - [0, 1 / 2, 1] ! 0 - 1 / 2\<bar>
      \<le> (2 * real 0 + 1) * (1 / 2) / 2 ^ 53"
    unfolding eta by blast
  show ?thesis
    by (intro conjI) (rule h, rule grid64_examples(1), rule a, rule q, rule grid64_examples(2),
      rule grid64_examples(3), rule grid64_examples(4), rule 1, rule 2, rule 3, rule 4)
qed

theorem grid_property_counterexample:
  "eta_float64 (- 2) 1 = Inr [] \<and>
   int (length ([] :: real list)) \<noteq> \<lceil>(- 2 :: real) / 1\<rceil> + 1 \<and>
   round64 (2 / 10) = 3602879701896397 / 18014398509481984 \<and>
   round64 (1 / 10) = 3602879701896397 / 36028797018963968 \<and>
   eta_float64 (3602879701896397 / 18014398509481984) (3602879701896397 / 36028797018963968) =
     Inr [0, 3602879701896397 / 36028797018963968, 3602879701896397 / 18014398509481984,
          1351079888211149 / 4503599627370496] \<and>
   int (length [0, 3602879701896397 / 36028797018963968, 3602879701896397 / 18014398509481984,
          1351079888211149 / 4503599627370496 :: real]) \<noteq>
     \<lceil>(3602879701896397 / 18014398509481984 :: real) / (3602879701896397 / 36028797018963968)\<rceil> + 1 \<and>
   (1351079888211149 / 4503599627370496 :: real) - 3602879701896397 / 18014398509481984 \<noteq>
     3602879701896397 / 36028797018963968"
proof -
  have 1: "int (length ([] :: real list)) \<noteq> \<lceil>(- 2 :: real) / 1\<rceil> + 1" by simp
  have 2: "int (length [0, 3602879701896397 / 36028797018963968,
            3602879701896397 / 18014398509481984, 1351079888211149 / 4503599627370496 :: real]) \<noteq>
     \<lceil>(3602879701896397 / 18014398509481984 :: real) / (3602879701896397 / 36028797018963968)\<rceil> + 1"
    by simp
  have 3: "(1351079888211149 / 4503599627370496 :: real) - 3602879701896397 / 18014398509481984 \<noteq>
     3602879701896397 / 36028797018963968" by simp
  show ?thesis
    by (intro conjI) (rule grid64_examples(5), rule 1, rule grid64_examples(7),
      rule grid64_examples(6), rule grid64_examples(8), rule 2, rule 3)
qed

text \<open>
  C7.  Every trajectory the integrator returns starts with \<open>f[0] = 0\<close>, \<open>fp[0] = 0\<close>
  and \<open>fpp[0] = f1_0\<close>; it returns one for every \<open>h \<noteq> 0\<close>.
\<close>

theorem initial_condition:
  "(h \<noteq> 0 \<longrightarrow> (\<exists>r. runge_kutta_4th_order f1_0 eta_max h = Inr r)) \<and>
   (\<forall>f fp fpp eta. runge_kutta_4th_order f1_0 eta_max h = Inr (f, fp, fpp, eta) \<longrightarrow>
      f \<noteq> [] \<and> fp \<noteq> [] \<and> fpp \<noteq> [] \<and> f ! 0 = Fin 0 \<and> fp ! 0 = Fin 0 \<and> fpp ! 0 = f1_0)"
proof (intro conjI allI impI)
  assume "h \<noteq> 0"
  then show "\<exists>r. runge_kutta_4th_order f1_0 eta_max h = Inr r"
    by (simp add: rk_returns)
next
  fix f fp fpp eta
  assume "runge_kutta_4th_order f1_0 eta_max h = Inr (f, fp, fpp, eta)"
  then have "traj f1_0 eta_max h = (f, fp, fpp)" by (simp add: rk_Inr_iff)
  from traj_first [OF this]
  show "f \<noteq> []" "fp \<noteq> []" "fpp \<noteq> []" "f ! 0 = Fin 0" "fp ! 0 = Fin 0" "fpp ! 0 = f1_0"
    by simp_all
qed

theorem initial_condition_witness:
  "runge_kutta_4th_order (Fin 1) 1 1 =
     Inr ([Fin 0, Fin (1 / 2)], [Fin 0, Fin (47 / 48)], [Fin 1, Fin (59 / 64)], [0, 1]) \<and>
   [Fin 0, Fin (1 / 2)] ! 0 = Fin 0 \<and> [Fin 0, Fin (47 / 48)] ! 0 = Fin 0 \<and>
   [Fin 1, Fin (59 / 64)] ! 0 = Fin 1"
  using initial_condition [of 1 "Fin 1" 1] rk_example by simp

text \<open>
  C8.  For \<open>h > 0\<close> the lists \<open>f\<close>, \<open>fp\<close> and \<open>fpp\<close> have the same length; it is the
  number of grid points when the grid is not empty (\<open>eta_max > -h\<close>).  For
  \<open>eta_max \<le> -h\<close> the grid is empty and the three lists keep their one initial element.
\<close>

theorem equal_lengths:
  assumes "0 < h"
  shows "\<exists>f fp fpp eta. runge_kutta_4th_order f1_0 eta_max h = Inr (f, fp, fpp, eta) \<and>
      length fp = length f \<and> length fpp = length f \<and>
      (- h < eta_max \<longrightarrow> length eta = length f) \<and>
      (eta_max \<le> - h \<longrightarrow> eta = [] \<and> length f = 1)"
proof -
  from assms have h: "h \<noteq> 0" by simp
  obtain f fp fpp where tr: "traj f1_0 eta_max h = (f, fp, fpp)"
    by (cases "traj f1_0 eta_max h") auto
  note l = traj_length [OF tr]
  have "length (eta_grid eta_max h) = length f" if "- h < eta_max"
  proof -
    from that assms have "- 1 < eta_max / h" by (simp add: field_simps)
    then have "0 \<le> \<lceil>eta_max / h\<rceil>" by linarith
    with eta_grid_length_pos [OF assms that] have "0 < length (eta_grid eta_max h)" by linarith
    with l show ?thesis by simp
  qed
  moreover have "eta_grid eta_max h = [] \<and> length f = 1" if "eta_max \<le> - h"
    using eta_grid_empty [OF assms that] l by simp
  ultimately show ?thesis using l tr by (simp add: rk_returns [OF h])
qed

theorem equal_lengths_witness:
  "(0::real) < 1 \<and> - 1 < (1::real) \<and>
   runge_kutta_4th_order (Fin 1) 1 1 =
     Inr ([Fin 0, Fin (1 / 2)], [Fin 0, Fin (47 / 48)], [Fin 1, Fin (59 / 64)], [0, 1]) \<and>
   length [Fin 0, Fin (47 / 48)] = length [Fin 0, Fin (1 / 2)] \<and>
   length [Fin 1, Fin (59 / 64)] = length [Fin 0, Fin (1 / 2)] \<and>
   length [0, 1::real] = length [Fin 0, Fin (1 / 2)]"
  using equal_lengths [of 1 "Fin 1" 1] rk_example by simp

theorem equal_lengths_counterexample:
  "runge_kutta_4th_order (Fin 1) (- 1) 1 = Inr ([Fin 0], [Fin 0], [Fin 1], []) \<and>
   length ([] :: real list) \<noteq> length [Fin 0]"
  by (simp add: runge_kutta_4th_order_def arange_def)

text \<open>
  C9.  For the trial parameter 0 and any \<open>eta_max\<close> and \<open>h > 0\<close>, every entry of
  \<open>f\<close>, \<open>fp\<close> and \<open>fpp\<close> is 0: the zero state is a fixed point of \<open>D\<close>, and one step
  maps it to itself.
\<close>

theorem zero_trajectory:
  assumes "0 < h"
  shows "\<exists>f fp fpp eta. runge_kutta_4th_order (Fin 0) eta_max h = Inr (f, fp, fpp, eta) \<and>
      (\<forall>i < length f. f ! i = Fin 0) \<and> (\<forall>i < length fp. fp ! i = Fin 0) \<and>
      (\<forall>i < length fpp. fpp ! i = Fin 0) \<and>
      spec_D (Fin 0, Fin 0, Fin 0) = (Fin 0, Fin 0, Fin 0) \<and>
      spec_rk4_step h (Fin 0, Fin 0, Fin 0) = (Fin 0, Fin 0, Fin 0)"
proof -
  from assms have h: "h \<noteq> 0" by simp
  show ?thesis
    by (simp add: rk_returns [OF h] traj_zero step_zero spec_D_def del: replicate_Suc)
qed

theorem zero_trajectory_witness:
  "(0::real) < 1 \<and>
   runge_kutta_4th_order (Fin 0) 2 1 =
     Inr ([Fin 0, Fin 0, Fin 0], [Fin 0, Fin 0, Fin 0], [Fin 0, Fin 0, Fin 0], [0, 1, 2]) \<and>
   [Fin 0, Fin 0, Fin 0] ! 0 = Fin 0 \<and> [Fin 0, Fin 0, Fin 0] ! 1 = Fin 0 \<and>
   [Fin 0, Fin 0, Fin 0] ! 2 = Fin 0"
  using zero_trajectory [of 1 2] rk_three_example by simp

section \<open>Lemmas on the shooting solver\<close>

lemma offset_cancel: "(x - Fin 1) - (y - Fin 1) = x - (y :: fl)"
  by (cases x; cases y) (simp_all add: minus_fl_def)

lemma secant_loop_Suc:
  assumes "h \<noteq> 0"
  shows "secant_loop (Suc n) i st tol eta_max h =
     (if converged tol (fp_end (snd (snd st)) eta_max h)
      then Inr (fst (traj (snd (snd st)) eta_max h), fst (snd (traj (snd (snd st)) eta_max h)),
                snd (snd (traj (snd (snd st)) eta_max h)), fp_end (snd (snd st)) eta_max h, i)
      else secant_loop n (Suc i) (secant_step eta_max h st) tol eta_max h)"
  by (cases st) (simp add: rk_returns [OF assms] converged_def fp_end_def secant_step_def Let_def
      del: secant_update.simps)

declare secant_loop.simps(2) [simp del]

lemma secant_loop_fail:
  assumes "h \<noteq> 0"
  shows "(\<forall>j<n. \<not> converged tol (fp_end (snd (snd ((secant_step eta_max h ^^ j) st))) eta_max h)) \<Longrightarrow>
     secant_loop n i st tol eta_max h =
       Inl (RuntimeError ''Secant method did not converge after 100 iterations'')"
proof (induction n arbitrary: i st)
  case 0
  then show ?case by simp
next
  case (Suc n)
  from Suc.prems have "\<not> converged tol (fp_end (snd (snd ((secant_step eta_max h ^^ 0) st))) eta_max h)"
    by blast
  then have nc: "\<not> converged tol (fp_end (snd (snd st)) eta_max h)" by simp
  have "\<forall>j<n. \<not> converged tol
          (fp_end (snd (snd ((secant_step eta_max h ^^ j) (secant_step eta_max h st)))) eta_max h)"
  proof (intro allI impI)
    fix j assume "j < n"
    then have "Suc j < Suc n" by simp
    with Suc.prems have "\<not> converged tol
        (fp_end (snd (snd ((secant_step eta_max h ^^ Suc j) st))) eta_max h)" by blast
    then show "\<not> converged tol
        (fp_end (snd (snd ((secant_step eta_max h ^^ j) (secant_step eta_max h st)))) eta_max h)"
      by (simp add: funpow_swap1)
  qed
  from Suc.IH [OF this] nc show ?case
    by (simp only: secant_loop_Suc [OF assms] if_False)
qed

lemma secant_loop_conv:
  assumes "h \<noteq> 0"
  shows "j < n \<Longrightarrow>
     (\<forall>k<j. \<not> converged tol (fp_end (snd (snd ((secant_step eta_max h ^^ k) st))) eta_max h)) \<Longrightarrow>
     converged tol (fp_end (snd (snd ((secant_step eta_max h ^^ j) st))) eta_max h) \<Longrightarrow>
     secant_loop n i st tol eta_max h =
       Inr (fst (traj (snd (snd ((secant_step eta_max h ^^ j) st))) eta_max h),
            fst (snd (traj (snd (snd ((secant_step eta_max h ^^ j) st))) eta_max h)),
            snd (snd (traj (snd (snd ((secant_step eta_max h ^^ j) st))) eta_max h)),
            fp_end (snd (snd ((secant_step eta_max h ^^ j) st))) eta_max h, i + j)"
proof (induction n arbitrary: i j st)
  case 0
  then show ?case by simp
next
  case (Suc n)
  show ?case
  proof (cases j)
    case 0
    with Suc.prems(3) show ?thesis by (simp add: secant_loop_Suc [OF assms])
  next
    case (Suc j')
    with Suc.prems(2) have "\<not> converged tol (fp_end (snd (snd ((secant_step eta_max h ^^ 0) st))) eta_max h)"
      by blast
    then have nc: "\<not> converged tol (fp_end (snd (snd st)) eta_max h)" by simp
    have a: "j' < n" using Suc.prems(1) Suc by simp
    have b: "\<forall>k<j'. \<not> converged tol
          (fp_end (snd (snd ((secant_step eta_max h ^^ k) (secant_step eta_max h st)))) eta_max h)"
    proof (intro allI impI)
      fix k assume "k < j'"
      then have "Suc k < j" using Suc by simp
      with Suc.prems(2) have "\<not> converged tol
          (fp_end (snd (snd ((secant_step eta_max h ^^ Suc k) st))) eta_max h)" by blast
      then show "\<not> converged tol
          (fp_end (snd (snd ((secant_step eta_max h ^^ k) (secant_step eta_max h st)))) eta_max h)"
        by (simp add: funpow_swap1)
    qed
    have c: "converged tol
          (fp_end (snd (snd ((secant_step eta_max h ^^ j') (secant_step eta_max h st)))) eta_max h)"
      using Suc.prems(3) Suc by (simp add: funpow_swap1)
    from Suc.IH [OF a b c, of "Suc i"] nc Suc show ?thesis
      by (simp add: secant_loop_Suc [OF assms] funpow_swap1)
  qed
qed

lemma secant_method_loop:
  assumes "h \<noteq> 0"
  shows "secant_method g tol eta_max h = secant_loop 100 0 (secant_state g eta_max h 0) tol eta_max h"
  by (cases g) (simp add: secant_method_def rk_returns [OF assms] secant_state_def fp_end_def)

lemma guess_funpow:
  "snd (snd ((secant_step eta_max h ^^ n) (secant_state g eta_max h 0))) = guess g eta_max h n"
  by (simp add: guess_def secant_state_def)

lemma secant_method_fail:
  assumes "h \<noteq> 0" and "\<forall>j<100. \<not> converged tol (fp_end (guess g eta_max h j) eta_max h)"
  shows "secant_method g tol eta_max h =
       Inl (RuntimeError ''Secant method did not converge after 100 iterations'')"
  using assms(2) secant_loop_fail [OF assms(1), of 100 tol eta_max "secant_state g eta_max h 0" 0]
  by (simp add: secant_method_loop [OF assms(1)] guess_funpow)

lemma secant_method_conv:
  assumes "h \<noteq> 0" and "j < 100"
    and "\<forall>k<j. \<not> converged tol (fp_end (guess g eta_max h k) eta_max h)"
    and "converged tol (fp_end (guess g eta_max h j) eta_max h)"
  shows "secant_method g tol eta_max h =
       Inr (fst (traj (guess g eta_max h j) eta_max h),
            fst (snd (traj (guess g eta_max h j) eta_max h)),
            snd (snd (traj (guess g eta_max h j) eta_max h)),
            fp_end (guess g eta_max h j) eta_max h, j)"
  using assms(2-4)
    secant_loop_conv [OF assms(1), of j 100 tol eta_max "secant_state g eta_max h 0" 0]
  by (simp add: secant_method_loop [OF assms(1)] guess_funpow)

section \<open>Properties of the shooting solver\<close>

lemma fp_end_last:
  "runge_kutta_4th_order x eta_max h = Inr (f, fp, fpp, eta) \<Longrightarrow> last fp = fp_end x eta_max h"
  by (auto simp: rk_Inr_iff fp_end_def dest: sym)

lemma rk_guess_traj:
  "runge_kutta_4th_order x eta_max h = Inr (f, fp, fpp, eta) \<Longrightarrow>
     h \<noteq> 0 \<and> fst (traj x eta_max h) = f \<and> fst (snd (traj x eta_max h)) = fp \<and>
     snd (snd (traj x eta_max h)) = fpp"
  by (auto simp: rk_Inr_iff dest: sym)

text \<open>
  C5.  If iteration \<open>i < 100\<close> is the first whose trajectory satisfies
  \<open>|f'(eta_max) - 1| < tol\<close>, the solver returns that trajectory's \<open>f\<close>, \<open>fp\<close>, \<open>fpp\<close>,
  the value \<open>f'(eta_max)\<close> itself (the last \<open>fp\<close>, not \<open>f'(eta_max) - 1\<close>), and \<open>i\<close>.
\<close>

theorem convergence_result:
  assumes "i < 100"
    and "\<forall>j<i. \<not> \<bar>fp_end (guess g eta_max h j) eta_max h - Fin 1\<bar> < Fin tol"
    and "runge_kutta_4th_order (guess g eta_max h i) eta_max h = Inr (f, fp, fpp, eta)"
    and "\<bar>last fp - Fin 1\<bar> < Fin tol"
  shows "secant_method g tol eta_max h = Inr (f, fp, fpp, last fp, i)"
proof -
  note t = rk_guess_traj [OF assms(3)]
  note l = fp_end_last [OF assms(3)]
  from assms(2) have a: "\<forall>k<i. \<not> converged tol (fp_end (guess g eta_max h k) eta_max h)"
    by (simp add: converged_def)
  from assms(4) l have b: "converged tol (fp_end (guess g eta_max h i) eta_max h)"
    by (simp add: converged_def)
  from t have h: "h \<noteq> 0" by simp
  from secant_method_conv [OF h assms(1) a b] t l show ?thesis by simp
qed

lemma conv_example:
  "\<not> \<bar>fp_end (guess (Fin 0, Fin 24) 1 1 0) 1 1 - Fin 1\<bar> < Fin 1"
  "runge_kutta_4th_order (guess (Fin 0, Fin 24) 1 1 1) 1 1 =
     Inr ([Fin 0, Fin 1], [Fin 0, Fin (23 / 12)], [Fin 2, Fin (41 / 24)], [0, 1])"
  "\<bar>last [Fin 0, Fin (23 / 12)] - Fin 1\<bar> < Fin 1"
  by code_simp+

theorem convergence_result_witness:
  "(1::nat) < 100 \<and>
   \<not> \<bar>fp_end (guess (Fin 0, Fin 24) 1 1 0) 1 1 - Fin 1\<bar> < Fin 1 \<and>
   runge_kutta_4th_order (guess (Fin 0, Fin 24) 1 1 1) 1 1 =
     Inr ([Fin 0, Fin 1], [Fin 0, Fin (23 / 12)], [Fin 2, Fin (41 / 24)], [0, 1]) \<and>
   \<bar>last [Fin 0, Fin (23 / 12)] - Fin 1\<bar> < Fin 1 \<and>
   secant_method (Fin 0, Fin 24) 1 1 1 =
     Inr ([Fin 0, Fin 1], [Fin 0, Fin (23 / 12)], [Fin 2, Fin (41 / 24)],
          last [Fin 0, Fin (23 / 12)], 1)"
  using convergence_result [of 1 "(Fin 0, Fin 24)" 1 1 1, OF _ _ conv_example(2,3)] conv_example
  by simp

text \<open>
  C10.  If the second seed guess already satisfies \<open>|f'(eta_max) - 1| < tol\<close>, the solver
  returns its trajectory, \<open>f'(eta_max)\<close> and the count 0, whatever the first seed guess is:
  two calls that differ only in the first guess return the same result.
\<close>

theorem first_guess_unused:
  assumes "runge_kutta_4th_order f1_0_new eta_max h = Inr (f, fp, fpp, eta)"
    and "\<bar>last fp - Fin 1\<bar> < Fin tol"
  shows "secant_method (f1_0_old, f1_0_new) tol eta_max h = Inr (f, fp, fpp, last fp, 0) \<and>
         secant_method (f1_0_old', f1_0_new) tol eta_max h =
           secant_method (f1_0_old, f1_0_new) tol eta_max h"
proof -
  note t = rk_guess_traj [OF assms(1)]
  note l = fp_end_last [OF assms(1)]
  from t have h: "h \<noteq> 0" by simp
  have "secant_method (x, f1_0_new) tol eta_max h = Inr (f, fp, fpp, last fp, 0)" for x
  proof -
    have g: "guess (x, f1_0_new) eta_max h 0 = f1_0_new"
      by (simp add: guess_def secant_state_def)
    with assms(2) l have "converged tol (fp_end (guess (x, f1_0_new) eta_max h 0) eta_max h)"
      by (simp add: converged_def)
    from secant_method_conv [OF h _ _ this] t l g show ?thesis by simp
  qed
  then show ?thesis by simp
qed

lemma first_guess_example:
  "runge_kutta_4th_order (Fin 2) 1 1 =
     Inr ([Fin 0, Fin 1], [Fin 0, Fin (23 / 12)], [Fin 2, Fin (41 / 24)], [0, 1])"
  "secant_method (Fin 5, Fin 2) 1 1 1 =
     Inr ([Fin 0, Fin 1], [Fin 0, Fin (23 / 12)], [Fin 2, Fin (41 / 24)], Fin (23 / 12), 0)"
  by code_simp+

theorem first_guess_unused_witness:
  "runge_kutta_4th_order (Fin 2) 1 1 =
     Inr ([Fin 0, Fin 1], [Fin 0, Fin (23 / 12)], [Fin 2, Fin (41 / 24)], [0, 1]) \<and>
   \<bar>last [Fin 0, Fin (23 / 12)] - Fin 1\<bar> < Fin 1 \<and>
   secant_method (Fin 0, Fin 2) 1 1 1 =
     Inr ([Fin 0, Fin 1], [Fin 0, Fin (23 / 12)], [Fin 2, Fin (41 / 24)],
          last [Fin 0, Fin (23 / 12)], 0) \<and>
   secant_method (Fin 5, Fin 2) 1 1 1 = secant_method (Fin 0, Fin 2) 1 1 1"
proof -
  note th = first_guess_unused [OF first_guess_example(1) conv_example(3), of "Fin 0" "Fin 5"]
  show ?thesis
    by (intro conjI) (rule first_guess_example(1), rule conv_example(3),
      rule th [THEN conjunct1], rule th [THEN conjunct2])
qed




lemma not_converged_nonpos: "tol \<le> 0 \<Longrightarrow> \<not> converged tol x"
  by (cases "x - Fin 1") (simp_all add: converged_def)

text \<open>
  C4.  For \<open>h \<noteq> 0\<close> the solver fails if and only if none of the 100 iterations has
  \<open>|f'(eta_max) - 1| < tol\<close>; whenever it fails, the error is the one
  \<open>RuntimeError\<close> with the fixed message, which names the limit of 100 iterations and
  nothing else; and with \<open>tol \<le> 0\<close> it always fails so.
\<close>

theorem nonconvergence_iff:
  assumes "h \<noteq> 0"
  shows "((\<exists>e. secant_method g tol eta_max h = Inl e) \<longleftrightarrow>
          (\<forall>i<100. \<not> \<bar>fp_end (guess g eta_max h i) eta_max h - Fin 1\<bar> < Fin tol))
    \<and> ((\<exists>e. secant_method g tol eta_max h = Inl e) \<longrightarrow>
          secant_method g tol eta_max h =
            Inl (RuntimeError ''Secant method did not converge after 100 iterations''))
    \<and> (tol \<le> 0 \<longrightarrow>
          secant_method g tol eta_max h =
            Inl (RuntimeError ''Secant method did not converge after 100 iterations''))"
proof -
  let ?P = "\<lambda>i. i < 100 \<and> converged tol (fp_end (guess g eta_max h i) eta_max h)"
  have fail: "secant_method g tol eta_max h =
      Inl (RuntimeError ''Secant method did not converge after 100 iterations'')"
    if "\<forall>i<100. \<not> converged tol (fp_end (guess g eta_max h i) eta_max h)"
    using secant_method_fail [OF assms that] .
  have ret: "\<exists>r. secant_method g tol eta_max h = Inr r" if "\<exists>i. ?P i"
  proof -
    from that obtain j where j: "?P j" and least: "\<forall>k<j. \<not> ?P k"
      using exists_least_iff [of ?P] by blast
    from least j have "\<forall>k<j. \<not> converged tol (fp_end (guess g eta_max h k) eta_max h)"
      by auto
    from secant_method_conv [OF assms _ this] j show ?thesis by blast
  qed
  have iff: "(\<exists>e. secant_method g tol eta_max h = Inl e) \<longleftrightarrow>
      (\<forall>i<100. \<not> converged tol (fp_end (guess g eta_max h i) eta_max h))"
  proof
    assume l: "\<exists>e. secant_method g tol eta_max h = Inl e"
    show "\<forall>i<100. \<not> converged tol (fp_end (guess g eta_max h i) eta_max h)"
    proof (rule ccontr)
      assume "\<not> (\<forall>i<100. \<not> converged tol (fp_end (guess g eta_max h i) eta_max h))"
      then have "\<exists>i. ?P i" by blast
      from ret [OF this] l show False by auto
    qed
  next
    assume "\<forall>i<100. \<not> converged tol (fp_end (guess g eta_max h i) eta_max h)"
    from fail [OF this] show "\<exists>e. secant_method g tol eta_max h = Inl e" by blast
  qed
  have 2: "(\<exists>e. secant_method g tol eta_max h = Inl e) \<longrightarrow>
          secant_method g tol eta_max h =
            Inl (RuntimeError ''Secant method did not converge after 100 iterations'')"
    using iff fail by blast
  have 3: "tol \<le> 0 \<longrightarrow>
          secant_method g tol eta_max h =
            Inl (RuntimeError ''Secant method did not converge after 100 iterations'')"
    using fail not_converged_nonpos by blast
  from iff 2 3 show ?thesis unfolding converged_def by (intro conjI)
qed

lemma secant_state_Suc:
  "secant_state g eta_max h (Suc n) = secant_step eta_max h (secant_state g eta_max h n)"
  by (simp add: secant_state_def)

lemma secant_state_fixed:
  assumes "secant_state g eta_max h m = st" and "secant_step eta_max h st = st" and "m \<le> n"
  shows "secant_state g eta_max h n = st"
  using assms(3)
proof (induction n rule: dec_induct)
  case base
  from assms(1) show ?case .
next
  case (step n)
  with assms(2) show ?case by (simp add: secant_state_Suc)
qed

text \<open>Two runs that do not converge: on the one-point grid \<open>eta_max = 0\<close>, \<open>h = 1\<close>, and
  on the two-point grid \<open>eta_max = 1\<close>, \<open>h = 1\<close>.\<close>

lemma run_a_states:
  "secant_state (Fin 1, Fin 2) 0 1 0 = (Fin 1, Fin 0, Fin 2)"
  "secant_step 0 1 (Fin 1, Fin 0, Fin 2) = (Fin 2, Fin 0, PInf)"
  "secant_step 0 1 (Fin 2, Fin 0, PInf) = (PInf, Fin 0, PInf)"
  "secant_step 0 1 (PInf, Fin 0, PInf) = (PInf, Fin 0, NaN)"
  "secant_step 0 1 (PInf, Fin 0, NaN) = (NaN, Fin 0, NaN)"
  "secant_step 0 1 (NaN, Fin 0, NaN) = (NaN, Fin 0, NaN)"
  "residual NaN 0 1 = Fin (- 1)"
  by code_simp+

lemma run_a_state_4: "secant_state (Fin 1, Fin 2) 0 1 (Suc (Suc (Suc (Suc 0)))) = (NaN, Fin 0, NaN)"
  by (simp only: secant_state_Suc run_a_states)

lemma run_a_guess: "guess (Fin 1, Fin 2) 0 1 99 = NaN"
  using secant_state_fixed [OF run_a_state_4 run_a_states(6), of 99] by (simp add: guess_def)

lemma run_b_states:
  "secant_state (Fin 0, Fin 48) 1 1 0 = (Fin 0, Fin 0, Fin 48)"
  "secant_step 1 1 (Fin 0, Fin 0, Fin 48) = (Fin 48, Fin 0, PInf)"
  "secant_step 1 1 (Fin 48, Fin 0, PInf) = (PInf, NaN, NaN)"
  "secant_step 1 1 (PInf, NaN, NaN) = (NaN, NaN, NaN)"
  "secant_step 1 1 (NaN, NaN, NaN) = (NaN, NaN, NaN)"
  "residual NaN 1 1 = NaN"
  by code_simp+

lemma run_b_state_3: "secant_state (Fin 0, Fin 48) 1 1 (Suc (Suc (Suc 0))) = (NaN, NaN, NaN)"
  by (simp only: secant_state_Suc run_b_states)

lemma run_b_guess: "guess (Fin 0, Fin 48) 1 1 99 = NaN"
  using secant_state_fixed [OF run_b_state_3 run_b_states(5), of 99] by (simp add: guess_def)

lemma nonconv_example:
  "secant_method (Fin 1, Fin 2) 0 0 1 =
     Inl (RuntimeError ''Secant method did not converge after 100 iterations'')"
  "secant_method (Fin 0, Fin 48) 0 1 1 =
     Inl (RuntimeError ''Secant method did not converge after 100 iterations'')"
  "secant_method (Fin 1, Fin 2) 0 1 0 = Inl ArangeError"
  by code_simp+

theorem nonconvergence_iff_witness:
  "(1::real) \<noteq> 0 \<and> (0::real) \<le> 0 \<and>
   secant_method (Fin 1, Fin 2) 0 0 1 =
     Inl (RuntimeError ''Secant method did not converge after 100 iterations'')"
proof -
  have h: "(1::real) \<noteq> 0" and t: "(0::real) \<le> 0" by simp_all
  note th = nonconvergence_iff [OF h, of "(Fin 1, Fin 2)" 0 0]
  from th [THEN conjunct2, THEN conjunct2, rule_format, OF t] h t show ?thesis
    by (intro conjI)
qed

theorem nonconvergence_counterexample:
  "secant_method (Fin 1, Fin 2) 0 0 1 =
     Inl (RuntimeError ''Secant method did not converge after 100 iterations'') \<and>
   residual (guess (Fin 1, Fin 2) 0 1 99) 0 1 = Fin (- 1) \<and>
   secant_method (Fin 0, Fin 48) 0 1 1 =
     Inl (RuntimeError ''Secant method did not converge after 100 iterations'') \<and>
   residual (guess (Fin 0, Fin 48) 1 1 99) 1 1 = NaN \<and>
   secant_method (Fin 1, Fin 2) 0 1 0 = Inl ArangeError"
  by (simp only: nonconv_example run_a_guess run_b_guess run_a_states(7) run_b_states(6) simp_thms)

lemma nonfinite_div_zero: "nonfinite (x / Fin 0)"
  by (cases x) simp_all

lemma nonfinite_minus_right: "nonfinite q \<Longrightarrow> nonfinite (x - q)"
  by (cases x; cases q) (simp_all add: minus_fl_def)

lemma nonfinite_minus_left: "nonfinite x \<Longrightarrow> nonfinite (x - q)"
  by (cases x; cases q) (simp_all add: minus_fl_def)

lemma nonfinite_times_right: "nonfinite y \<Longrightarrow> nonfinite (x * y)"
  by (cases x; cases y) simp_all

lemma nonfinite_div_left: "nonfinite x \<Longrightarrow> nonfinite (x / y)"
  by (cases x; cases y) simp_all

lemma update_degenerate:
  assumes "f2_new - f2_old = Fin 0"
  shows "nonfinite (snd (snd (secant_update (f1_0_old, f2_old, f1_0_new) f2_new)))"
  using assms by (simp add: Let_def nonfinite_div_zero nonfinite_minus_right)

lemma update_nonfinite:
  assumes "nonfinite f1_0_new"
  shows "nonfinite (snd (snd (secant_update (f1_0_old, f2_old, f1_0_new) f2_new)))"
  using assms
  by (simp add: Let_def nonfinite_minus_left nonfinite_times_right nonfinite_div_left)

lemma nan_loop:
  "last fp = NaN \<Longrightarrow> last fpp = NaN \<Longrightarrow> rk4_loop n h (f, fp, fpp) = (f', fp', fpp') \<Longrightarrow>
     last fp' = NaN \<and> last fpp' = NaN"
proof (induction n arbitrary: f fp fpp)
  case 0
  then show ?case by simp
next
  case (Suc n)
  from Suc.prems(1,2) obtain a where "spec_rk4_step h (last f, last fp, last fpp) = (a, NaN, NaN)"
    using step_nan [of h "last f"] by auto
  with Suc.prems(3) have "rk4_loop n h (f @ [a], fp @ [NaN], fpp @ [NaN]) = (f', fp', fpp')"
    by (simp add: rk4_body_step)
  from Suc.IH [OF _ _ this] show ?case by simp
qed

lemma fp_end_nonfinite:
  assumes "h \<noteq> 0" and "nonfinite x"
  shows "fp_end x eta_max h = NaN \<or> (\<forall>y. fp_end y eta_max h = Fin 0)"
proof (cases "length (eta_grid eta_max h) - 1")
  case 0
  then show ?thesis by (simp add: fp_end_def traj_def)
next
  case (Suc m)
  from step_nonfinite [OF assms] obtain a where
    a: "spec_rk4_step h (Fin 0, Fin 0, x) = (a, NaN, NaN)" by auto
  obtain f fp fpp where r: "rk4_loop m h ([Fin 0, a], [Fin 0, NaN], [x, NaN]) = (f, fp, fpp)"
    by (cases "rk4_loop m h ([Fin 0, a], [Fin 0, NaN], [x, NaN])") auto
  from nan_loop [OF _ _ r] have "last fp = NaN" by simp
  with r a Suc show ?thesis by (simp add: fp_end_def traj_def rk4_body_step)
qed

lemma not_converged_nonfinite:
  assumes "h \<noteq> 0" and "nonfinite x" and "\<not> converged tol (fp_end y eta_max h)"
  shows "\<not> converged tol (fp_end x eta_max h)"
  using fp_end_nonfinite [OF assms(1,2), of eta_max] assms(3)
  by (auto simp: converged_def)

lemma guess_Suc:
  "guess g eta_max h (Suc n) =
     snd (snd (secant_update (secant_state g eta_max h n) (fp_end (guess g eta_max h n) eta_max h)))"
  by (simp add: guess_def secant_state_Suc secant_step_def)

lemma guess_stays_nonfinite:
  assumes "nonfinite (guess g eta_max h m)" and "m \<le> n"
  shows "nonfinite (guess g eta_max h n)"
  using assms(2)
proof (induction n rule: dec_induct)
  case base
  from assms(1) show ?case .
next
  case (step n)
  obtain a b c where st: "secant_state g eta_max h n = (a, b, c)"
    by (cases "secant_state g eta_max h n") auto
  with step have "nonfinite c" by (simp add: guess_def)
  from update_nonfinite [OF this] st show ?case
    by (simp add: guess_Suc del: secant_update.simps)
qed

text \<open>
  C3.  If iteration \<open>i\<close> does not converge and its two residuals are equal
  (\<open>R_new - R_old = 0\<close>), nothing is raised at the division: the next trial parameter
  is non-finite, the old one is kept as \<open>f1_0_old\<close>, and the solver ends with the
  \<open>RuntimeError\<close> of a run that did not converge.
\<close>

theorem degenerate_step_propagates:
  assumes "h \<noteq> 0" and "i < 100"
    and "\<forall>j\<le>i. \<not> \<bar>fp_end (guess g eta_max h j) eta_max h - Fin 1\<bar> < Fin tol"
    and "secant_state g eta_max h i = (f1_0_old, f2_old, f1_0_new)"
    and "(fp_end f1_0_new eta_max h - Fin 1) - (f2_old - Fin 1) = Fin 0"
  shows "nonfinite (guess g eta_max h (Suc i)) \<and>
         fst (secant_state g eta_max h (Suc i)) = f1_0_new \<and>
         secant_method g tol eta_max h =
           Inl (RuntimeError ''Secant method did not converge after 100 iterations'')"
proof -
  from assms(4) have gi: "guess g eta_max h i = f1_0_new" by (simp add: guess_def)
  from assms(5) have d: "fp_end f1_0_new eta_max h - f2_old = Fin 0"
    by (simp only: offset_cancel)
  from update_degenerate [OF d] assms(4) gi have nf: "nonfinite (guess g eta_max h (Suc i))"
    by (simp add: guess_Suc del: secant_update.simps)
  from assms(4) have old: "fst (secant_state g eta_max h (Suc i)) = f1_0_new"
    by (simp add: secant_state_Suc secant_step_def Let_def)
  from assms(3) have nci: "\<not> converged tol (fp_end (guess g eta_max h i) eta_max h)"
    by (simp add: converged_def)
  have "\<forall>j<100. \<not> converged tol (fp_end (guess g eta_max h j) eta_max h)"
  proof (intro allI impI)
    fix j :: nat assume "j < 100"
    show "\<not> converged tol (fp_end (guess g eta_max h j) eta_max h)"
    proof (cases "j \<le> i")
      case True
      with assms(3) show ?thesis by (simp add: converged_def)
    next
      case False
      then have "Suc i \<le> j" by simp
      from guess_stays_nonfinite [OF nf this] have "nonfinite (guess g eta_max h j)" .
      from not_converged_nonfinite [OF assms(1) this nci] show ?thesis .
    qed
  qed
  from secant_method_fail [OF assms(1) this] nf old show ?thesis by (intro conjI)
qed

lemma run_b_facts:
  "\<not> \<bar>fp_end (Fin 48) 1 1 - Fin 1\<bar> < Fin (1 / 10000000)"
  "(fp_end (Fin 48) 1 1 - Fin 1) - (Fin 0 - Fin 1) = Fin 0"
  "guess (Fin 0, Fin 48) 1 1 0 = Fin 48"
  "guess (Fin 0, Fin 48) 1 1 (Suc 0) = PInf"
  "secant_method (Fin 0, Fin 48) (1 / 10000000) 1 1 =
     Inl (RuntimeError ''Secant method did not converge after 100 iterations'')"
  by code_simp+

theorem degenerate_step_propagates_witness:
  "(1::real) \<noteq> 0 \<and> (0::nat) < 100 \<and>
   \<not> \<bar>fp_end (guess (Fin 0, Fin 48) 1 1 0) 1 1 - Fin 1\<bar> < Fin (1 / 10000000) \<and>
   secant_state (Fin 0, Fin 48) 1 1 0 = (Fin 0, Fin 0, Fin 48) \<and>
   (fp_end (Fin 48) 1 1 - Fin 1) - (Fin 0 - Fin 1) = Fin 0 \<and>
   nonfinite (guess (Fin 0, Fin 48) 1 1 (Suc 0)) \<and>
   secant_method (Fin 0, Fin 48) (1 / 10000000) 1 1 =
     Inl (RuntimeError ''Secant method did not converge after 100 iterations'')"
proof -
  have h: "(1::real) \<noteq> 0" and i: "(0::nat) < 100" by simp_all
  have nc: "\<not> \<bar>fp_end (guess (Fin 0, Fin 48) 1 1 0) 1 1 - Fin 1\<bar> < Fin (1 / 10000000)"
    by (simp only: run_b_facts(3)) (rule run_b_facts(1))
  then have all: "\<forall>j\<le>0. \<not> \<bar>fp_end (guess (Fin 0, Fin 48) 1 1 j) 1 1 - Fin 1\<bar> < Fin (1 / 10000000)"
    by simp
  note th = degenerate_step_propagates [OF h i all run_b_states(1) run_b_facts(2)]
  show ?thesis
    by (intro conjI) (rule h, rule i, rule nc, rule run_b_states(1), rule run_b_facts(2),
      rule th [THEN conjunct1], rule th [THEN conjunct2, THEN conjunct2])
qed

theorem degenerate_step_counterexample:
  "secant_state (Fin 0, Fin 48) 1 1 0 = (Fin 0, Fin 0, Fin 48) \<and>
   (fp_end (Fin 48) 1 1 - Fin 1) - (Fin 0 - Fin 1) = Fin 0 \<and>
   \<not> \<bar>fp_end (Fin 48) 1 1 - Fin 1\<bar> < Fin (1 / 10000000) \<and>
   guess (Fin 0, Fin 48) 1 1 (Suc 0) = PInf \<and>
   secant_method (Fin 0, Fin 48) (1 / 10000000) 1 1 =
     Inl (RuntimeError ''Secant method did not converge after 100 iterations'')"
  by (intro conjI) (rule run_b_states(1), rule run_b_facts(2), rule run_b_facts(1),
    rule run_b_facts(4), rule run_b_facts(5))

end
